theory Spec2Isabelle
  imports Complex_Main "HOL-Library.Multiset" "HOL-Library.AList"
begin

section \<open>Errors\<close>

datatype error =
    InvalidEmbeddingError
  | SchemaMismatchError
  | NotFoundError
  | LengthMismatchError
  | EmptyIndexError
  | SaveError
  | StoreOpenError
  | UpgradeError
  | NotInitializedError
  | CollectionMissingError
  | TypeError
  | RangeError
  | DataCloneError
  | StoreNotFoundError
  | InvalidStateError

text \<open>
  The source throws \<^verbatim>\<open>Error\<close> objects that differ in their message only; the
  constructors above carry the names the specification gives them.
  \<^item> \<open>InvalidEmbeddingError\<close>: "Object must have an embedding property of type number[]"
  \<^item> \<open>SchemaMismatchError\<close>: "Object must have the same properties as the initial objects"
  \<^item> \<open>NotFoundError\<close>: "Vector not found"
  \<^item> \<open>LengthMismatchError\<close>: "Vectors must have the same length"
  \<^item> \<open>EmptyIndexError\<close>: "Index is empty"
  \<^item> \<open>SaveError\<close>: "Error saving index to database"
  \<^item> \<open>StoreOpenError\<close>: "Database initialization failed"
  \<^item> \<open>UpgradeError\<close>: "Failed to create new version"
  \<^item> \<open>NotInitializedError\<close>: "Database not initialized"
  \<^item> \<open>CollectionMissingError\<close>: "Object store not initialized"
  \<^item> \<open>TypeError\<close>, \<open>RangeError\<close>: raised by the language, not by the source
  \<^item> \<open>DataCloneError\<close>, \<open>StoreNotFoundError\<close>, \<open>InvalidStateError\<close>: raised by the
    storage engine
\<close>

section \<open>Numbers\<close>

text \<open>
  A number is a binary64 value: \<^verbatim>\<open>NaN\<close>, one of the two infinities, or a finite
  value, carried as the real number it stands for. The two zeros are one value here:
  \<^verbatim>\<open>===\<close> and the comparisons of the program do not tell them apart, and the only
  division of the program has a product of square roots as its divisor, which is never
  \<^verbatim>\<open>-0\<close>. A zero divisor is read as \<^verbatim>\<open>+0\<close>.
\<close>

datatype number = NaN | PInf | NInf | Fin real

text \<open>
  Rounding to nearest, ties to the even significand. The significand has 53 bits down to the
  exponent \<open>-1022\<close>; below, the spacing stays \<open>2\<^sup>-\<^sup>1\<^sup>0\<^sup>7\<^sup>4\<close>; a rounded magnitude of
  \<open>2\<^sup>1\<^sup>0\<^sup>2\<^sup>4\<close> or more is an infinity.
\<close>

definition round_half_even :: "real \<Rightarrow> int" where
  "round_half_even m =
     (let f = \<lfloor>m\<rfloor> in
      if m - of_int f < 1 / 2 then f
      else if 1 / 2 < m - of_int f then f + 1
      else if even f then f else f + 1)"

definition round64 :: "real \<Rightarrow> number" where
  "round64 x =
     (if x = 0 then Fin 0
      else let e = max \<lfloor>log 2 \<bar>x\<bar>\<rfloor> (- 1022);
               ulp = 2 powr (of_int e - 52);
               y = of_int (round_half_even (x / ulp)) * ulp
           in if 2 ^ 1024 \<le> \<bar>y\<bar> then (if 0 < x then PInf else NInf) else Fin y)"

text \<open>\<^verbatim>\<open>a + b\<close>\<close>

fun num_add :: "number \<Rightarrow> number \<Rightarrow> number" where
  "num_add (Fin x) (Fin y) = round64 (x + y)"
| "num_add NaN b = NaN"
| "num_add a NaN = NaN"
| "num_add PInf NInf = NaN"
| "num_add NInf PInf = NaN"
| "num_add PInf b = PInf"
| "num_add a PInf = PInf"
| "num_add NInf b = NInf"
| "num_add a NInf = NInf"

text \<open>\<^verbatim>\<open>a - b\<close>\<close>

fun num_sub :: "number \<Rightarrow> number \<Rightarrow> number" where
  "num_sub (Fin x) (Fin y) = round64 (x - y)"
| "num_sub NaN b = NaN"
| "num_sub a NaN = NaN"
| "num_sub PInf PInf = NaN"
| "num_sub NInf NInf = NaN"
| "num_sub PInf b = PInf"
| "num_sub a NInf = PInf"
| "num_sub NInf b = NInf"
| "num_sub a PInf = NInf"

text \<open>The infinity of a sign.\<close>

definition inf_of_sign :: "bool \<Rightarrow> number" where
  "inf_of_sign positive = (if positive then PInf else NInf)"

text \<open>\<^verbatim>\<open>a * b\<close>: an infinity times zero is \<^verbatim>\<open>NaN\<close>.\<close>

fun num_mul :: "number \<Rightarrow> number \<Rightarrow> number" where
  "num_mul (Fin x) (Fin y) = round64 (x * y)"
| "num_mul NaN b = NaN"
| "num_mul a NaN = NaN"
| "num_mul PInf PInf = PInf"
| "num_mul PInf NInf = NInf"
| "num_mul NInf PInf = NInf"
| "num_mul NInf NInf = PInf"
| "num_mul PInf (Fin y) = (if y = 0 then NaN else inf_of_sign (0 < y))"
| "num_mul NInf (Fin y) = (if y = 0 then NaN else inf_of_sign (y < 0))"
| "num_mul (Fin x) PInf = (if x = 0 then NaN else inf_of_sign (0 < x))"
| "num_mul (Fin x) NInf = (if x = 0 then NaN else inf_of_sign (x < 0))"

text \<open>\<^verbatim>\<open>a / b\<close>, a zero divisor being \<^verbatim>\<open>+0\<close>.\<close>

fun num_div :: "number \<Rightarrow> number \<Rightarrow> number" where
  "num_div (Fin x) (Fin y) =
     (if y = 0 then (if x = 0 then NaN else inf_of_sign (0 < x)) else round64 (x / y))"
| "num_div NaN b = NaN"
| "num_div a NaN = NaN"
| "num_div (Fin x) PInf = Fin 0"
| "num_div (Fin x) NInf = Fin 0"
| "num_div PInf (Fin y) = inf_of_sign (0 \<le> y)"
| "num_div NInf (Fin y) = inf_of_sign (y < 0)"
| "num_div a b = NaN"

text \<open>\<^verbatim>\<open>Math.sqrt\<close>, rounded to nearest as the engines compute it.\<close>

fun num_sqrt :: "number \<Rightarrow> number" where
  "num_sqrt (Fin x) = (if x < 0 then NaN else round64 (sqrt x))"
| "num_sqrt PInf = PInf"
| "num_sqrt NInf = NaN"
| "num_sqrt NaN = NaN"

text \<open>\<^verbatim>\<open>isNaN\<close> on a number.\<close>

fun isNaN :: "number \<Rightarrow> bool" where
  "isNaN NaN = True"
| "isNaN a = False"

text \<open>\<^verbatim>\<open>v > 0\<close>\<close>

fun is_positive :: "number \<Rightarrow> bool" where
  "is_positive (Fin x) = (0 < x)"
| "is_positive PInf = True"
| "is_positive a = False"

text \<open>
  \<^verbatim>\<open>parseFloat(x.toFixed(precision))\<close>. \<^verbatim>\<open>toFixed\<close> throws a
  \<^verbatim>\<open>RangeError\<close> unless \<open>0 \<le> precision \<le> 100\<close>; it prints \<^verbatim>\<open>NaN\<close> and the
  infinities as they are and a number of magnitude \<open>10\<^sup>2\<^sup>1\<close> or more in full, which
  \<^verbatim>\<open>parseFloat\<close> reads back unchanged; otherwise it prints the decimal with
  \<open>precision\<close> digits that is nearest to the magnitude, a tie going up, and
  \<^verbatim>\<open>parseFloat\<close> rounds that decimal to binary64.
\<close>

definition toFixed_parsed :: "int \<Rightarrow> number \<Rightarrow> error + number" where
  "toFixed_parsed precision n =
     (if precision < 0 \<or> 100 < precision then Inl RangeError
      else case n of
          NaN \<Rightarrow> Inr NaN
        | PInf \<Rightarrow> Inr PInf
        | NInf \<Rightarrow> Inr NInf
        | Fin x \<Rightarrow>
            if 10 ^ 21 \<le> \<bar>x\<bar> then Inr (Fin x)
            else Inr (round64 (sgn x * of_int \<lfloor>\<bar>x\<bar> * 10 ^ nat precision + 1 / 2\<rfloor>
                                 / 10 ^ nat precision)))"

section \<open>Values and objects\<close>

text \<open>
  The index stores records of the TypeScript type \<^verbatim>\<open>{ [key: string]: any }\<close>.
  The model covers these values: \<^verbatim>\<open>undefined\<close>, \<^verbatim>\<open>null\<close>, booleans, numbers,
  strings, arrays of numbers and functions. An array and a function carry the address of
  the object, since \<^verbatim>\<open>===\<close> compares objects by reference; the code never writes
  into an array, so the content travels with the address. A function carries its arity
  (its \<^verbatim>\<open>length\<close>), and is not one of the built-in members of
  \<^verbatim>\<open>Object.prototype\<close>. Arrays with entries that are not numbers and nested objects
  are not values of the model.
\<close>

type_synonym addr = nat

datatype jsval =
    VUndefined
  | VNull
  | VBool bool
  | VNum number
  | VStr string
  | VArray addr "number list"
  | VFunction addr nat

text \<open>
  A record, a filter and the registry of object stores are plain objects: the list of the
  own fields, a read taking the first binding of a name, and the members every plain object
  inherits from \<^verbatim>\<open>Object.prototype\<close>.
\<close>

type_synonym obj = "(string \<times> jsval) list"

definition Object_prototype_names :: "string list" where
  "Object_prototype_names =
     [''constructor'', ''__defineGetter__'', ''__defineSetter__'', ''hasOwnProperty'',
      ''__lookupGetter__'', ''__lookupSetter__'', ''isPrototypeOf'', ''propertyIsEnumerable'',
      ''toString'', ''valueOf'', ''__proto__'', ''toLocaleString'']"

definition Object_keys :: "obj \<Rightarrow> string list" where
  "Object_keys ob = map fst ob"

text \<open>
  What a read \<^verbatim>\<open>ob[key]\<close> gives: the value of the own field; for a name that the
  object only inherits, the built-in member of that name (a function, or the prototype
  object for \<^verbatim>\<open>__proto__\<close>); \<^verbatim>\<open>undefined\<close> otherwise.
\<close>

datatype reading = Value jsval | Builtin string

definition get_prop :: "obj \<Rightarrow> string \<Rightarrow> reading" where
  "get_prop ob key =
     (case map_of ob key of
        Some v \<Rightarrow> Value v
      | None \<Rightarrow> if key \<in> set Object_prototype_names then Builtin key else Value VUndefined)"

text \<open>\<^verbatim>\<open>key in ob\<close>: own or inherited.\<close>

definition has_prop :: "obj \<Rightarrow> string \<Rightarrow> bool" where
  "has_prop ob key = (key \<in> set (map fst ob) \<or> key \<in> set Object_prototype_names)"

text \<open>
  \<^verbatim>\<open>a === b\<close> on values: primitives by value, with \<^verbatim>\<open>NaN !== NaN\<close>; arrays and
  functions by reference.
\<close>

fun strict_equals :: "jsval \<Rightarrow> jsval \<Rightarrow> bool" where
  "strict_equals VUndefined VUndefined = True"
| "strict_equals VNull VNull = True"
| "strict_equals (VBool a) (VBool b) = (a = b)"
| "strict_equals (VNum a) (VNum b) = (a \<noteq> NaN \<and> a = b)"
| "strict_equals (VStr s) (VStr t) = (s = t)"
| "strict_equals (VArray a xs) (VArray b ys) = (a = b)"
| "strict_equals (VFunction a m) (VFunction b n) = (a = b)"
| "strict_equals v w = False"

text \<open>
  \<^verbatim>\<open>a === b\<close> on what two reads gave: a built-in member is equal to itself and to
  no value of the model.
\<close>

fun same_reading :: "reading \<Rightarrow> reading \<Rightarrow> bool" where
  "same_reading (Value v) (Value w) = strict_equals v w"
| "same_reading (Builtin a) (Builtin b) = (a = b)"
| "same_reading a b = False"

text \<open>
  \<^verbatim>\<open>obj.embedding\<close>: \<^verbatim>\<open>Object.prototype\<close> has no member of this name, so the read
  gives the own field or \<^verbatim>\<open>undefined\<close> (\<open>get_prop_embedding\<close> below).
\<close>

definition embedding :: "obj \<Rightarrow> jsval" where
  "embedding ob = (case get_prop ob ''embedding'' of Value v \<Rightarrow> v | Builtin name \<Rightarrow> VUndefined)"

text \<open>\<^verbatim>\<open>Array.isArray(v)\<close>\<close>

fun isArray :: "jsval \<Rightarrow> bool" where
  "isArray (VArray a xs) = True"
| "isArray v = False"

text \<open>\<^verbatim>\<open>v.some(isNaN)\<close>, reached only after \<^verbatim>\<open>Array.isArray(v)\<close>.\<close>

fun some_isNaN :: "jsval \<Rightarrow> bool" where
  "some_isNaN (VArray a xs) = list_ex isNaN xs"
| "some_isNaN v = False"

section \<open>The index\<close>

text \<open>
  \<^verbatim>\<open>class DynamicDB\<close>: the connection (\<^verbatim>\<open>db\<close>, here \<open>conn\<close>: the name of the
  database and whether the handle has been closed), the names under which an object store
  has been registered, and the version counter.
\<close>

record connection =
  conn_name :: string
  conn_closed :: bool

record DynamicDB =
  conn :: "connection option"
  objectStores :: "string list"
  version :: nat

text \<open>\<^verbatim>\<open>class EmbeddingIndex\<close>\<close>

record EmbeddingIndex =
  objects :: "obj list"
  keys :: "string list"
  db :: DynamicDB

text \<open>\<^verbatim>\<open>new DynamicDB()\<close> and \<^verbatim>\<open>new EmbeddingIndex()\<close>\<close>

definition new_DynamicDB :: DynamicDB where
  "new_DynamicDB = \<lparr>conn = None, objectStores = [], version = 1\<rparr>"

definition new_EmbeddingIndex :: EmbeddingIndex where
  "new_EmbeddingIndex = \<lparr>objects = [], keys = [], db = new_DynamicDB\<rparr>"

text \<open>
  A method that may throw returns the error or the value, and the state the index is in
  when it returns or throws.
\<close>

type_synonym 'a outcome = "(error + 'a) \<times> EmbeddingIndex"

text \<open>
  The filter test shared by every lookup:
  \<^verbatim>\<open>Object.keys(filter).every((key) => object[key] === filter[key])\<close>
\<close>

definition matches :: "obj \<Rightarrow> obj \<Rightarrow> bool" where
  "matches flt ob =
     list_all (\<lambda>key. same_reading (get_prop ob key) (get_prop flt key)) (Object_keys flt)"

text \<open>\<^verbatim>\<open>xs.findIndex(p)\<close>, with \<open>None\<close> for \<^verbatim>\<open>-1\<close>.\<close>

fun findIndex :: "('a \<Rightarrow> bool) \<Rightarrow> 'a list \<Rightarrow> nat option" where
  "findIndex p [] = None"
| "findIndex p (x # xs) = (if p x then Some 0 else map_option Suc (findIndex p xs))"

text \<open>\<^verbatim>\<open>xs.splice(i, 1)\<close>\<close>

definition splice1 :: "nat \<Rightarrow> 'a list \<Rightarrow> 'a list" where
  "splice1 i xs = take i xs @ drop (Suc i) xs"

definition validateAndAdd :: "obj \<Rightarrow> EmbeddingIndex \<Rightarrow> unit outcome" where
  "validateAndAdd ob s =
     (if \<not> isArray (embedding ob) \<or> some_isNaN (embedding ob)
      then (Inl InvalidEmbeddingError, s)
      else if length (keys s) = 0
      then (Inr (), s\<lparr>keys := Object_keys ob, objects := objects s @ [ob]\<rparr>)
      else if \<not> list_all (\<lambda>key. has_prop ob key) (keys s)
      then (Inl SchemaMismatchError, s)
      else (Inr (), s\<lparr>objects := objects s @ [ob]\<rparr>))"

definition add :: "obj \<Rightarrow> EmbeddingIndex \<Rightarrow> unit outcome" where
  "add ob s = validateAndAdd ob s"

definition update :: "obj \<Rightarrow> obj \<Rightarrow> EmbeddingIndex \<Rightarrow> unit outcome" where
  "update flt vector s =
     (case findIndex (matches flt) (objects s) of
        None \<Rightarrow> (Inl NotFoundError, s)
      | Some i \<Rightarrow>
          (case validateAndAdd vector s of
             (Inl e, s1) \<Rightarrow> (Inl e, s1)
           | (Inr u, s1) \<Rightarrow> (Inr (), s1\<lparr>objects := (objects s1)[i := vector]\<rparr>)))"

definition remove :: "obj \<Rightarrow> EmbeddingIndex \<Rightarrow> unit outcome" where
  "remove flt s =
     (case findIndex (matches flt) (objects s) of
        None \<Rightarrow> (Inl NotFoundError, s)
      | Some i \<Rightarrow> (Inr (), s\<lparr>objects := splice1 i (objects s)\<rparr>))"

text \<open>The body of the \<^verbatim>\<open>forEach\<close> callback of \<^verbatim>\<open>removeBatch\<close>.\<close>

definition removeBatch_step :: "obj \<Rightarrow> EmbeddingIndex \<Rightarrow> EmbeddingIndex" where
  "removeBatch_step flt s =
     (case findIndex (matches flt) (objects s) of
        None \<Rightarrow> s
      | Some i \<Rightarrow> s\<lparr>objects := splice1 i (objects s)\<rparr>)"

fun removeBatch :: "obj list \<Rightarrow> EmbeddingIndex \<Rightarrow> unit outcome" where
  "removeBatch [] s = (Inr (), s)"
| "removeBatch (flt # filters) s = removeBatch filters (removeBatch_step flt s)"

text \<open>\<^verbatim>\<open>get\<close> returns the record, or \<open>None\<close> for \<^verbatim>\<open>null\<close>.\<close>

definition get :: "obj \<Rightarrow> EmbeddingIndex \<Rightarrow> obj option" where
  "get flt s = find (matches flt) (objects s)"

section \<open>Cosine similarity\<close>

text \<open>\<^verbatim>\<open>xs[i]\<close>, \<open>None\<close> for \<^verbatim>\<open>undefined\<close>.\<close>

definition at_index :: "'a list \<Rightarrow> nat \<Rightarrow> 'a option" where
  "at_index xs i = (if i < length xs then Some (xs ! i) else None)"

text \<open>
  \<^verbatim>\<open>vecA.reduce((sum, a, i) => { const b = vecB[i]; return sum + a * (b !== undefined ? b : 0); }, 0)\<close>
\<close>

definition dotProduct :: "number list \<Rightarrow> number list \<Rightarrow> number" where
  "dotProduct vecA vecB =
     foldl (\<lambda>sum (a, i). num_add sum (num_mul a (case at_index vecB i of Some b \<Rightarrow> b | None \<Rightarrow> Fin 0)))
       (Fin 0) (zip vecA [0 ..< length vecA])"

text \<open>\<^verbatim>\<open>Math.sqrt(vec.reduce((sum, a) => sum + a * a, 0))\<close>\<close>

definition magnitude :: "number list \<Rightarrow> number" where
  "magnitude vec = num_sqrt (foldl (\<lambda>sum a. num_add sum (num_mul a a)) (Fin 0) vec)"

definition cosineSimilarity :: "number list \<Rightarrow> number list \<Rightarrow> int \<Rightarrow> error + number" where
  "cosineSimilarity vecA vecB precision =
     (if length vecA \<noteq> length vecB then Inl LengthMismatchError
      else if magnitude vecA = Fin 0 \<or> magnitude vecB = Fin 0 then Inr (Fin 0)
      else toFixed_parsed precision
             (num_div (dotProduct vecA vecB) (num_mul (magnitude vecA) (magnitude vecB))))"

section \<open>Search\<close>

record SimilarityResult =
  similarity :: number
  object :: obj

text \<open>\<^verbatim>\<open>options: { topK?: number; filter?: {...} }\<close>, with \<open>topK\<close> an integer.\<close>

record options =
  topK :: "int option"
  filter_opt :: "obj option"

text \<open>
  \<^verbatim>\<open>cosineSimilarity(queryEmbedding, obj.embedding)\<close> on whatever the field holds.
  Reading \<^verbatim>\<open>length\<close> of \<^verbatim>\<open>undefined\<close> or \<^verbatim>\<open>null\<close> is a
  \<^verbatim>\<open>TypeError\<close>. A boolean and a number have no \<^verbatim>\<open>length\<close>, which fails the
  length test. A string and a function have one (the number of characters, the arity); when
  it is the length of the query they pass the length test and the first reduction, and fail
  at \<^verbatim>\<open>vecB.reduce\<close>, which they do not have.
\<close>

definition similarity_to :: "number list \<Rightarrow> jsval \<Rightarrow> error + number" where
  "similarity_to queryEmbedding v =
     (case v of
        VArray a vecB \<Rightarrow> cosineSimilarity queryEmbedding vecB 6
      | VUndefined \<Rightarrow> Inl TypeError
      | VNull \<Rightarrow> Inl TypeError
      | VStr t \<Rightarrow>
          if length queryEmbedding \<noteq> length t then Inl LengthMismatchError else Inl TypeError
      | VFunction a n \<Rightarrow>
          if length queryEmbedding \<noteq> n then Inl LengthMismatchError else Inl TypeError
      | VBool b \<Rightarrow> Inl LengthMismatchError
      | VNum x \<Rightarrow> Inl LengthMismatchError)"

text \<open>The callback of \<^verbatim>\<open>map\<close> in \<^verbatim>\<open>search\<close>.\<close>

definition score :: "number list \<Rightarrow> obj \<Rightarrow> error + SimilarityResult" where
  "score queryEmbedding ob =
     (case similarity_to queryEmbedding (embedding ob) of
        Inl e \<Rightarrow> Inl e
      | Inr c \<Rightarrow> Inr \<lparr>similarity = c, object = ob\<rparr>)"

text \<open>\<^verbatim>\<open>xs.map(f)\<close> for a callback that may throw: the first throw ends the loop.\<close>

fun map_throwing :: "('a \<Rightarrow> error + 'b) \<Rightarrow> 'a list \<Rightarrow> error + 'b list" where
  "map_throwing f [] = Inr []"
| "map_throwing f (x # xs) =
     (case f x of
        Inl e \<Rightarrow> Inl e
      | Inr y \<Rightarrow> (case map_throwing f xs of Inl e \<Rightarrow> Inl e | Inr ys \<Rightarrow> Inr (y # ys)))"

text \<open>
  \<^verbatim>\<open>xs.sort(cmp)\<close>. The language requires a stable sort and reads a comparator
  result that is positive as "the first argument goes after the second", anything else
  (\<^verbatim>\<open>NaN\<close> too) as "keep the order". A comparator that is a consistent order
  fixes the result of a stable sort, and this is the case of every use below. For a
  comparator that is not one the language leaves the result to the engine, and the
  insertion from the right shown here is one of the results it allows.
\<close>

fun insert_sorted :: "('a \<Rightarrow> 'a \<Rightarrow> number) \<Rightarrow> 'a \<Rightarrow> 'a list \<Rightarrow> 'a list" where
  "insert_sorted cmp x [] = [x]"
| "insert_sorted cmp x (y # ys) =
     (if is_positive (cmp x y) then y # insert_sorted cmp x ys else x # y # ys)"

definition array_sort :: "('a \<Rightarrow> 'a \<Rightarrow> number) \<Rightarrow> 'a list \<Rightarrow> 'a list" where
  "array_sort cmp xs = foldr (insert_sorted cmp) xs []"

text \<open>\<^verbatim>\<open>xs.slice(0, k)\<close> for an integer \<open>k\<close>: a negative \<open>k\<close> counts from the end.\<close>

definition slice0 :: "int \<Rightarrow> 'a list \<Rightarrow> 'a list" where
  "slice0 k xs = (if k < 0 then take (nat (int (length xs) + k)) xs else take (nat k) xs)"

text \<open>
  \<^verbatim>\<open>options.topK || 3\<close>: a missing \<open>topK\<close> and the falsy \<open>0\<close> both give 3.
  \<^verbatim>\<open>options.filter || {}\<close>: a missing filter gives the empty one.
\<close>

definition search :: "number list \<Rightarrow> options \<Rightarrow> EmbeddingIndex \<Rightarrow> error + SimilarityResult list" where
  "search queryEmbedding opts s =
     (let k = (case topK opts of None \<Rightarrow> 3 | Some n \<Rightarrow> if n = 0 then 3 else n);
          flt = (case filter_opt opts of None \<Rightarrow> [] | Some f \<Rightarrow> f)
      in case map_throwing (score queryEmbedding) (filter (matches flt) (objects s)) of
           Inl e \<Rightarrow> Inl e
         | Inr similarities \<Rightarrow>
             Inr (slice0 k (array_sort (\<lambda>a b. num_sub (similarity b) (similarity a)) similarities)))"

section \<open>The storage engine\<close>

text \<open>
  The module owns one in-memory IndexedDB factory (\<^verbatim>\<open>const indexedDB = new IDBFactory()\<close>).
  The model keeps what the source relies on: the databases by name, each with its version and
  its object stores (the records of a store in key order, the keys being generated in
  insertion order), and the \<^verbatim>\<open>add\<close> requests that have been issued and have not
  settled yet. Methods that the caller awaits run to completion, one after the other.
  Connections of other \<open>DynamicDB\<close> instances, which would block an upgrade, and write
  failures of the engine after a request has been accepted are outside the model.
\<close>

record database =
  db_version :: nat
  db_stores :: "(string \<times> obj list) list"

record engine =
  databases :: "(string \<times> database) list"
  pending :: "(string \<times> string \<times> obj) list"
  next_addr :: addr

text \<open>
  \<^verbatim>\<open>new IDBFactory()\<close>: no database, nothing pending. \<open>next_addr\<close> is the next unused
  address of the heap, from which the arrays of a record that is read back are allocated.
\<close>

definition new_IDBFactory :: "addr \<Rightarrow> engine" where
  "new_IDBFactory n = \<lparr>databases = [], pending = [], next_addr = n\<rparr>"

text \<open>\<^verbatim>\<open>db.objectStoreNames.contains(name)\<close>\<close>

definition has_store :: "engine \<Rightarrow> string \<Rightarrow> string \<Rightarrow> bool" where
  "has_store e dbname name =
     (case map_of (databases e) dbname of
        None \<Rightarrow> False
      | Some d \<Rightarrow> name \<in> set (map fst (db_stores d)))"

text \<open>An accepted \<^verbatim>\<open>add\<close> request completes: the record goes to the end of its store.\<close>

definition store_record :: "string \<times> string \<times> obj \<Rightarrow> engine \<Rightarrow> engine" where
  "store_record req e =
     (case req of (dbname, name, ob) \<Rightarrow>
        (case map_of (databases e) dbname of
           None \<Rightarrow> e
         | Some d \<Rightarrow>
             (case map_of (db_stores d) name of
                None \<Rightarrow> e
              | Some records \<Rightarrow>
                  e\<lparr>databases :=
                      AList.update dbname
                        (d\<lparr>db_stores := AList.update name (records @ [ob]) (db_stores d)\<rparr>)
                        (databases e)\<rparr>)))"

text \<open>
  The engine runs transactions on one store in the order of their creation, and a connection
  closes only after its transactions: before a read or an upgrade, every pending request
  settles, in the order of issue.
\<close>

definition settle :: "engine \<Rightarrow> engine" where
  "settle e = (foldl (\<lambda>e' req. store_record req e') e (pending e))\<lparr>pending := []\<rparr>"

text \<open>
  \<^verbatim>\<open>indexedDB.open(name, v)\<close> for \<open>v \<ge> 1\<close>: a new database is created at version
  \<open>v\<close>, an older one is upgraded to \<open>v\<close> (both fire \<^verbatim>\<open>upgradeneeded\<close>, then
  \<^verbatim>\<open>success\<close>), one at version \<open>v\<close> is opened (\<^verbatim>\<open>success\<close> only), a newer
  one fails (\<^verbatim>\<open>error\<close>).
\<close>

datatype opened = Failed | Opened bool

definition open_database :: "string \<Rightarrow> nat \<Rightarrow> engine \<Rightarrow> opened \<times> engine" where
  "open_database name v e0 =
     (let e = settle e0 in
      case map_of (databases e) name of
        None \<Rightarrow>
          (Opened True,
           e\<lparr>databases := AList.update name \<lparr>db_version = v, db_stores = []\<rparr> (databases e)\<rparr>)
      | Some d \<Rightarrow>
          if v < db_version d then (Failed, e)
          else if v = db_version d then (Opened False, e)
          else (Opened True,
                e\<lparr>databases := AList.update name (d\<lparr>db_version := v\<rparr>) (databases e)\<rparr>))"

text \<open>\<^verbatim>\<open>db.createObjectStore(name, { autoIncrement: true })\<close> inside an upgrade.\<close>

definition createObjectStore :: "string \<Rightarrow> string \<Rightarrow> engine \<Rightarrow> engine" where
  "createObjectStore dbname name e =
     (case map_of (databases e) dbname of
        None \<Rightarrow> e
      | Some d \<Rightarrow>
          e\<lparr>databases :=
              AList.update dbname (d\<lparr>db_stores := db_stores d @ [(name, [])]\<rparr>) (databases e)\<rparr>)"

text \<open>The version of a database, read after a successful \<^verbatim>\<open>open\<close>.\<close>

definition version_of :: "engine \<Rightarrow> string \<Rightarrow> nat" where
  "version_of e name = (case map_of (databases e) name of None \<Rightarrow> 0 | Some d \<Rightarrow> db_version d)"

text \<open>
  The structured clone that \<^verbatim>\<open>objectStore.add\<close> takes of a record fails on a function
  (\<^verbatim>\<open>DataCloneError\<close>). A record read back is a new object: its arrays get fresh
  addresses.
\<close>

fun cloneable_value :: "jsval \<Rightarrow> bool" where
  "cloneable_value (VFunction a n) = False"
| "cloneable_value v = True"

definition cloneable :: "obj \<Rightarrow> bool" where
  "cloneable ob = list_all (\<lambda>(key, v). cloneable_value v) ob"

fun revive_value :: "addr \<Rightarrow> jsval \<Rightarrow> jsval \<times> addr" where
  "revive_value n (VArray a xs) = (VArray n xs, Suc n)"
| "revive_value n v = (v, n)"

fun revive :: "addr \<Rightarrow> obj \<Rightarrow> obj \<times> addr" where
  "revive n [] = ([], n)"
| "revive n ((key, v) # rest) =
     (case revive_value n v of (v', n') \<Rightarrow>
        (case revive n' rest of (rest', n'') \<Rightarrow> ((key, v') # rest', n'')))"

fun revive_all :: "addr \<Rightarrow> obj list \<Rightarrow> obj list \<times> addr" where
  "revive_all n [] = ([], n)"
| "revive_all n (ob # obs) =
     (case revive n ob of (ob', n') \<Rightarrow>
        (case revive_all n' obs of (obs', n'') \<Rightarrow> (ob' # obs', n'')))"

section \<open>DynamicDB\<close>

text \<open>
  An asynchronous method returns how its promise settles, the \<open>DynamicDB\<close> and the engine.
\<close>

type_synonym 'a settled = "(error + 'a) \<times> DynamicDB \<times> engine"

text \<open>
  \<^verbatim>\<open>initializeDB(name)\<close>. \<^verbatim>\<open>indexedDB.open\<close> throws a \<^verbatim>\<open>TypeError\<close>
  for the version 0, inside the executor of the promise, which rejects with it.
\<close>

definition initializeDB :: "string \<Rightarrow> DynamicDB \<times> engine \<Rightarrow> unit settled" where
  "initializeDB name st =
     (case st of (this, e) \<Rightarrow>
        if conn this \<noteq> None then (Inr (), this, e)
        else if version this = 0 then (Inl TypeError, this, e)
        else (case open_database name (version this) e of
                (Failed, e') \<Rightarrow> (Inl StoreOpenError, this, e')
              | (Opened upgrade, e') \<Rightarrow>
                  (Inr (),
                   this\<lparr>conn := Some \<lparr>conn_name = name, conn_closed = False\<rparr>,
                        version := version_of e' name\<rparr>,
                   e')))"

text \<open>
  \<^verbatim>\<open>createNewVersion(name)\<close>, as \<^verbatim>\<open>makeObjectStore\<close> calls it (no secondary
  index): close the connection, count the version up, and open
  \<^verbatim>\<open>this.db?.name || "defaultDB"\<close>, which is \<^verbatim>\<open>"defaultDB"\<close> without a
  connection and for a connection to the database with the empty name.
\<close>

definition createNewVersion :: "string \<Rightarrow> DynamicDB \<times> engine \<Rightarrow> unit settled" where
  "createNewVersion name st =
     (case st of (this0, e) \<Rightarrow>
        let this1 = this0\<lparr>conn := map_option (\<lambda>c. c\<lparr>conn_closed := True\<rparr>) (conn this0),
                          version := version this0 + 1\<rparr>;
            dbname = (case conn this1 of
                        None \<Rightarrow> ''defaultDB''
                      | Some c \<Rightarrow> if conn_name c = [] then ''defaultDB'' else conn_name c)
        in case open_database dbname (version this1) e of
             (Failed, e') \<Rightarrow> (Inl UpgradeError, this1, e')
           | (Opened upgrade, e') \<Rightarrow>
               let this2 = this1\<lparr>conn := Some \<lparr>conn_name = dbname, conn_closed = False\<rparr>\<rparr>
               in if upgrade \<and> \<not> has_store e' dbname name
                  then (Inr (), this2\<lparr>objectStores := objectStores this2 @ [name]\<rparr>,
                        createObjectStore dbname name e')
                  else (Inr (), this2, e'))"

definition makeObjectStore :: "string \<Rightarrow> DynamicDB \<times> engine \<Rightarrow> unit settled" where
  "makeObjectStore name st =
     (case st of (this, e) \<Rightarrow>
        if conn this = None then (Inl NotInitializedError, this, e)
        else createNewVersion name (this, e))"

text \<open>
  \<^verbatim>\<open>db.transaction([name], mode)\<close> throws on a closed connection and on a store the
  database does not have.
\<close>

definition transaction :: "connection \<Rightarrow> string \<Rightarrow> engine \<Rightarrow> error option" where
  "transaction c name e =
     (if conn_closed c then Some InvalidStateError
      else if \<not> has_store e (conn_name c) name then Some StoreNotFoundError
      else None)"

text \<open>
  \<^verbatim>\<open>addToDB(name, obj)\<close>: the executor of the promise runs at the call and either
  rejects or issues the request; the value says how the promise settles, and an issued
  request is pending in the engine until it settles. The test
  \<^verbatim>\<open>!this.objectStores[name]\<close> reads the registry, a plain object: it finds a
  registered store, and for an inherited name a built-in member, which is truthy as well.
\<close>

definition addToDB :: "string \<Rightarrow> obj \<Rightarrow> DynamicDB \<times> engine \<Rightarrow> (error + unit) \<times> engine" where
  "addToDB name ob st =
     (case st of (this, e) \<Rightarrow>
        (case conn this of
           None \<Rightarrow> (Inl NotInitializedError, e)
         | Some c \<Rightarrow>
             if name \<notin> set (objectStores this) \<and> name \<notin> set Object_prototype_names
             then (Inl CollectionMissingError, e)
             else (case transaction c name e of
                     Some err \<Rightarrow> (Inl err, e)
                   | None \<Rightarrow>
                       if \<not> cloneable ob then (Inl DataCloneError, e)
                       else (Inr (), e\<lparr>pending := pending e @ [(conn_name c, name, ob)]\<rparr>))))"

text \<open>
  \<^verbatim>\<open>dbGenerator(objectStoreName)\<close>, consumed to its end: the records of the store in key
  order. The read-only transaction starts after the pending requests.
\<close>

definition dbGenerator :: "string \<Rightarrow> DynamicDB \<times> engine \<Rightarrow> (error + obj list) \<times> engine" where
  "dbGenerator objectStoreName st =
     (case st of (this, e) \<Rightarrow>
        (case conn this of
           None \<Rightarrow> (Inl NotInitializedError, e)
         | Some c \<Rightarrow>
             (case transaction c objectStoreName e of
                Some err \<Rightarrow> (Inl err, e)
              | None \<Rightarrow>
                  let e1 = settle e;
                      stored = (case map_of (databases e1) (conn_name c) of
                                  None \<Rightarrow> []
                                | Some d \<Rightarrow>
                                    (case map_of (db_stores d) objectStoreName of
                                       None \<Rightarrow> []
                                     | Some records \<Rightarrow> records))
                  in case revive_all (next_addr e1) stored of
                       (records, n) \<Rightarrow> (Inr records, e1\<lparr>next_addr := n\<rparr>))))"

section \<open>Saving and loading the index\<close>

text \<open>
  \<^verbatim>\<open>saveIndexToDB\<close>: the promises that \<^verbatim>\<open>addToDB\<close> returns inside the
  \<^verbatim>\<open>forEach\<close> are dropped, and \<^verbatim>\<open>resolve()\<close> follows in the same callback.
\<close>

definition saveIndexToDB ::
  "string \<Rightarrow> string \<Rightarrow> EmbeddingIndex \<times> engine \<Rightarrow> (error + unit) \<times> EmbeddingIndex \<times> engine" where
  "saveIndexToDB DBname objectStoreName st =
     (case st of (s, e) \<Rightarrow>
        if length (objects s) = 0 then (Inl EmptyIndexError, s, e)
        else (case initializeDB DBname (db s, e) of
                (Inl err, d1, e1) \<Rightarrow> (Inl SaveError, s\<lparr>db := d1\<rparr>, e1)
              | (Inr u, d1, e1) \<Rightarrow>
                  (case makeObjectStore objectStoreName (d1, e1) of
                     (Inl err, d2, e2) \<Rightarrow> (Inl SaveError, s\<lparr>db := d2\<rparr>, e2)
                   | (Inr u', d2, e2) \<Rightarrow>
                       (Inr (), s\<lparr>db := d2\<rparr>,
                        foldl (\<lambda>e' ob. snd (addToDB objectStoreName ob (d2, e'))) e2 (objects s)))))"

definition loadIndexFromDB ::
  "string \<Rightarrow> EmbeddingIndex \<times> engine \<Rightarrow> (error + unit) \<times> EmbeddingIndex \<times> engine" where
  "loadIndexFromDB objectStoreName st =
     (case st of (s0, e) \<Rightarrow>
        let s = s0\<lparr>objects := []\<rparr>
        in case dbGenerator objectStoreName (db s, e) of
             (Inl err, e') \<Rightarrow> (Inl err, s, e')
           | (Inr records, e') \<Rightarrow> (Inr (), s\<lparr>objects := records\<rparr>, e'))"

section \<open>Vocabulary of the specification\<close>

text \<open>
  "\<open>record.embedding\<close> is a sequence of numbers with no \<^verbatim>\<open>NaN\<close> entries", said
  without the code's tests.
\<close>

definition valid_embedding :: "obj \<Rightarrow> bool" where
  "valid_embedding ob = (case embedding ob of VArray a xs \<Rightarrow> NaN \<notin> set xs | _ \<Rightarrow> False)"

text \<open>"The record has every one of these field names" among its own fields.\<close>

definition has_all_fields :: "string list \<Rightarrow> obj \<Rightarrow> bool" where
  "has_all_fields names ob = (set names \<subseteq> fst ` set ob)"

text \<open>
  \<^verbatim>\<open>a >= b\<close> on numbers: false as soon as one side is \<^verbatim>\<open>NaN\<close>.
\<close>

fun num_ge :: "number \<Rightarrow> number \<Rightarrow> bool" where
  "num_ge (Fin x) (Fin y) = (y \<le> x)"
| "num_ge NaN b = False"
| "num_ge a NaN = False"
| "num_ge PInf b = True"
| "num_ge a NInf = True"
| "num_ge a b = False"

text \<open>
  A record for which \<open>cosineSimilarity\<close> returns a number other than \<^verbatim>\<open>NaN\<close> as
  its similarity to the query.
\<close>

definition scored :: "number list \<Rightarrow> obj \<Rightarrow> bool" where
  "scored q ob = (case score q ob of Inl e \<Rightarrow> False | Inr r \<Rightarrow> similarity r \<noteq> NaN)"

text \<open>
  A number other than \<^verbatim>\<open>NaN\<close> that is an infinity or an integer multiple of
  \<open>2\<^sup>-\<^sup>1\<^sup>0\<^sup>7\<^sup>4\<close>, as every finite binary64 number is.
\<close>

fun on_grid :: "number \<Rightarrow> bool" where
  "on_grid (Fin x) = (\<exists>n::int. x = of_int n * 2 powr (- 1074))"
| "on_grid NaN = False"
| "on_grid a = True"

text \<open>A number of magnitude at most \<open>2\<^sup>5\<^sup>0\<^sup>0\<close>.\<close>

definition bounded_entry :: "number \<Rightarrow> bool" where
  "bounded_entry x = (case x of Fin r \<Rightarrow> \<bar>r\<bar> \<le> 2 ^ 500 | _ \<Rightarrow> False)"

text \<open>A record whose embedding is an array of another length than the query.\<close>

definition wrong_length :: "number list \<Rightarrow> obj \<Rightarrow> bool" where
  "wrong_length q ob =
     (case embedding ob of VArray a e \<Rightarrow> length e \<noteq> length q | _ \<Rightarrow> False)"

text \<open>
  Two records that are equal as mappings from field names to values: the same fields in the
  same order, arrays compared by content.
\<close>

fun same_value :: "jsval \<Rightarrow> jsval \<Rightarrow> bool" where
  "same_value (VArray a xs) (VArray b ys) = (xs = ys)"
| "same_value v w = (v = w)"

definition same_record :: "obj \<Rightarrow> obj \<Rightarrow> bool" where
  "same_record r r' = list_all2 (\<lambda>(key, v) (key', v'). key = key' \<and> same_value v v') r r'"

text \<open>What a collection of a database holds, \<open>None\<close> when there is no such collection.\<close>

definition stored :: "engine \<Rightarrow> string \<Rightarrow> string \<Rightarrow> obj list option" where
  "stored e dbname name =
     (case map_of (databases e) dbname of
        None \<Rightarrow> None
      | Some d \<Rightarrow> map_of (db_stores d) name)"

section \<open>Example data\<close>

definition rec1 :: obj where
  "rec1 = [(''id'', VNum (Fin 1)), (''embedding'', VArray 1 [Fin 1, Fin 0])]"

definition rec2 :: obj where
  "rec2 = [(''id'', VNum (Fin 2)), (''embedding'', VArray 2 [Fin 0, Fin 1])]"

definition rec3 :: obj where
  "rec3 = [(''id'', VNum (Fin 3)), (''embedding'', VArray 3 [Fin 1, Fin 1]), (''extra'', VStr ''x'')]"

definition rec_no_embedding :: obj where
  "rec_no_embedding = [(''id'', VNum (Fin 3))]"

definition rec_nan :: obj where
  "rec_nan = [(''id'', VNum (Fin 4)), (''embedding'', VArray 4 [Fin 1, NaN])]"

definition rec_no_id :: obj where
  "rec_no_id = [(''embedding'', VArray 5 [Fin 1, Fin 1])]"

definition rec_fn :: obj where
  "rec_fn = [(''id'', VNum (Fin 6)), (''embedding'', VArray 6 [Fin 1, Fin 1]), (''f'', VFunction 7 0)]"


definition rec_zero :: obj where
  "rec_zero = [(''id'', VNum (Fin 9)), (''embedding'', VArray 9 [Fin 0, Fin 0])]"

definition rec_huge :: obj where
  "rec_huge = [(''id'', VNum (Fin 7)), (''embedding'', VArray 10 [Fin (2 ^ 600), Fin 0])]"

definition index12 :: EmbeddingIndex where
  "index12 = \<lparr>objects = [rec1, rec2], keys = [''id'', ''embedding''], db = new_DynamicDB\<rparr>"

definition index_fn :: EmbeddingIndex where
  "index_fn = \<lparr>objects = [rec_fn], keys = [''id'', ''embedding'', ''f''], db = new_DynamicDB\<rparr>"

definition index_huge :: EmbeddingIndex where
  "index_huge = \<lparr>objects = [rec_huge, rec_zero], keys = [''id'', ''embedding''], db = new_DynamicDB\<rparr>"


definition engine0 :: engine where
  "engine0 = new_IDBFactory 100"

text \<open>The index and the engine after \<open>index12\<close> has been saved with the default names.\<close>

definition saved12 :: "EmbeddingIndex \<times> engine" where
  "saved12 = snd (saveIndexToDB ''defaultDB'' ''DefaultStore'' (index12, engine0))"

text \<open>
  The engine after \<open>index12\<close> has been saved twice with the default names, which leaves the
  database \<open>defaultDB\<close> at version 3.
\<close>

definition engine_v3 :: engine where
  "engine_v3 = snd (snd (saveIndexToDB ''defaultDB'' ''DefaultStore'' saved12))"

lemmas index_defs = add_def validateAndAdd_def update_def remove_def get_def splice1_def
  matches_def Object_keys_def get_prop_def has_prop_def embedding_def Object_prototype_names_def

lemmas store_defs = saveIndexToDB_def loadIndexFromDB_def initializeDB_def makeObjectStore_def
  createNewVersion_def addToDB_def dbGenerator_def transaction_def open_database_def settle_def
  store_record_def createObjectStore_def has_store_def version_of_def cloneable_def
  new_DynamicDB_def new_EmbeddingIndex_def new_IDBFactory_def Let_def

section \<open>Rounding and reading\<close>

lemma round64_zero: "round64 0 = Fin 0"
  by (simp add: round64_def)

lemma round_half_even_int: "round_half_even (of_int n) = n"
  by (simp add: round_half_even_def)

lemma round64_one: "round64 1 = Fin 1"
proof -
  have u: "(2::real) powr (- 52) = 1 / 2 ^ 52"
    by (simp add: powr_minus_divide flip: powr_realpow)
  have "(1::real) / (1 / 2 ^ 52) = of_int (2 ^ 52)" by simp
  then have r: "round_half_even (1 / (1 / 2 ^ 52)) = 2 ^ 52"
    by (simp only: round_half_even_int)
  have small: "\<not> (2::real) ^ 1024 \<le> 1" by simp
  show ?thesis
    using r small by (simp add: round64_def u Let_def)
qed

lemma round64_not_NaN: "round64 x \<noteq> NaN"
  unfolding round64_def Let_def by (simp only: if_distrib [of "\<lambda>n. n \<noteq> NaN"] number.distinct
      simp_thms if_cancel split: if_splits)

text \<open>Rounding keeps a bound that is a binary64 number, and the sign.\<close>

lemma round_half_even_le: "m \<le> of_int n \<Longrightarrow> round_half_even m \<le> n"
  unfolding round_half_even_def Let_def by (auto simp: floor_le_iff)

lemma round_half_even_ge: "of_int n \<le> m \<Longrightarrow> n \<le> round_half_even m"
proof -
  assume "of_int n \<le> m"
  then have "n \<le> \<lfloor>m\<rfloor>" by (simp add: le_floor_iff)
  then show ?thesis unfolding round_half_even_def Let_def by auto
qed

lemma floor_log_le: "0 < a \<Longrightarrow> 2 powr of_int \<lfloor>log 2 a\<rfloor> \<le> a"
proof -
  assume a: "0 < a"
  have "2 powr of_int \<lfloor>log 2 a\<rfloor> \<le> 2 powr log 2 a"
    by (rule powr_mono) simp_all
  with a show ?thesis by simp
qed

lemma round64_unfold:
  "x \<noteq> 0 \<Longrightarrow> e = max \<lfloor>log 2 \<bar>x\<bar>\<rfloor> (- 1022) \<Longrightarrow> ulp = 2 powr (of_int e - 52) \<Longrightarrow>
   n = round_half_even (x / ulp) \<Longrightarrow>
   round64 x = (if (2::real) ^ 1024 \<le> \<bar>of_int n * ulp\<bar>
                then (if 0 < x then PInf else NInf) else Fin (of_int n * ulp))"
  unfolding round64_def Let_def by (simp only: if_False)

lemma round64_upper:
  fixes x :: real
  assumes "\<bar>x\<bar> \<le> of_nat i * 2 ^ j" "i < 2 ^ 53" "of_nat i * (2::real) ^ j < 2 ^ 1024"
  shows "\<exists>y. round64 x = Fin y \<and> \<bar>y\<bar> \<le> of_nat i * 2 ^ j"
proof (cases "x = 0")
  case True
  then show ?thesis by (simp add: round64_zero)
next
  case False
  define e where "e = max \<lfloor>log 2 \<bar>x\<bar>\<rfloor> (- 1022)"
  define ulp :: real where "ulp = 2 powr (of_int e - 52)"
  define n where "n = round_half_even (x / ulp)"
  note r = round64_unfold [OF False e_def ulp_def n_def]
  have ulp_pos: "0 < ulp" by (simp add: ulp_def)
  from False have "2 powr of_int \<lfloor>log 2 \<bar>x\<bar>\<rfloor> \<le> \<bar>x\<bar>" by (intro floor_log_le) simp
  also note assms(1)
  also have "of_nat i * (2::real) ^ j < 2 ^ 53 * 2 ^ j"
    using assms(2) by (simp add: of_nat_less_numeral_power_cancel_iff)
  also have "\<dots> = 2 powr of_int (53 + int j)"
    by (simp add: powr_add powr_realpow)
  finally have "\<lfloor>log 2 \<bar>x\<bar>\<rfloor> < 53 + int j"
    by (simp only: powr_less_cancel_iff of_int_less_iff)
  then have el: "e \<le> 52 + int j" by (simp add: e_def)
  define d where "d = nat (52 + int j - e)"
  have "ulp * 2 ^ d = 2 powr (of_int e - 52) * 2 powr (of_nat d)"
    by (simp add: ulp_def powr_realpow)
  also have "\<dots> = 2 powr (of_int e - 52 + of_nat d)" by (simp add: powr_add)
  also have "of_int e - 52 + of_nat d = (real j)" using el by (simp add: d_def)
  finally have pj: "(2::real) ^ j = ulp * 2 ^ d" by (simp add: powr_realpow)
  define N where "N = int i * 2 ^ d"
  have M: "of_nat i * (2::real) ^ j = of_int N * ulp"
    by (simp add: N_def pj)
  from assms(1) have "x \<le> of_int N * ulp" "- (of_int N * ulp) \<le> x" unfolding M by linarith+
  with ulp_pos have "x / ulp \<le> of_int N" "of_int (- N) \<le> x / ulp"
    by (simp_all add: pos_divide_le_eq pos_le_divide_eq)
  then have "n \<le> N" "- N \<le> n"
    unfolding n_def by (simp_all add: round_half_even_le round_half_even_ge del: of_int_minus)
  then have "\<bar>of_int n :: real\<bar> \<le> of_int N" by linarith
  with ulp_pos have b: "\<bar>of_int n * ulp\<bar> \<le> of_int N * ulp"
    by (simp add: abs_mult mult_right_mono)
  with assms(3) have "\<not> (2::real) ^ 1024 \<le> \<bar>of_int n * ulp\<bar>" unfolding M by linarith
  with r b show ?thesis unfolding M by (simp only: if_False) blast
qed

lemma round64_grid:
  assumes "round64 x = Fin y"
  shows "y = 0 \<or> 2 powr (- 1074) \<le> \<bar>y\<bar>"
proof (cases "x = 0")
  case True
  with assms show ?thesis by (simp add: round64_zero)
next
  case False
  define e where "e = max \<lfloor>log 2 \<bar>x\<bar>\<rfloor> (- 1022)"
  define ulp :: real where "ulp = 2 powr (of_int e - 52)"
  define n where "n = round_half_even (x / ulp)"
  note r = round64_unfold [OF False e_def ulp_def n_def]
  with assms have y: "y = of_int n * ulp" by (auto split: if_splits)
  have "- 1022 \<le> e" by (simp add: e_def)
  then have "(2::real) powr (- 1074) \<le> ulp"
    unfolding ulp_def by (intro powr_mono) simp_all
  moreover have "ulp \<le> \<bar>of_int n * ulp\<bar>" if "n \<noteq> 0"
  proof -
    from that have "1 \<le> \<bar>of_int n :: real\<bar>" by (simp flip: of_int_abs)
    moreover have "0 < ulp" by (simp add: ulp_def)
    ultimately show ?thesis by (simp add: abs_mult)
  qed
  ultimately show ?thesis unfolding y by (cases "n = 0") auto
qed

lemma round64_nonneg:
  assumes "0 \<le> x" "round64 x = Fin y"
  shows "0 \<le> y"
proof (cases "x = 0")
  case True
  with assms show ?thesis by (simp add: round64_zero)
next
  case False
  define e where "e = max \<lfloor>log 2 \<bar>x\<bar>\<rfloor> (- 1022)"
  define ulp :: real where "ulp = 2 powr (of_int e - 52)"
  define n where "n = round_half_even (x / ulp)"
  note r = round64_unfold [OF False e_def ulp_def n_def]
  with assms have y: "y = of_int n * ulp" by (auto split: if_splits)
  have ulp_pos: "0 < ulp" by (simp add: ulp_def)
  with assms(1) have "of_int 0 \<le> x / ulp" by simp
  then have "0 \<le> n" unfolding n_def by (rule round_half_even_ge)
  with ulp_pos show ?thesis unfolding y by simp
qed

lemma round64_lower:
  assumes "2 powr of_int k \<le> x" "- 1074 \<le> k" "round64 x = Fin y"
  shows "2 powr of_int k \<le> y"
proof -
  have xpos: "0 < x" using assms(1) by (rule less_le_trans [rotated]) simp
  then have False: "x \<noteq> 0" by simp
  define e where "e = max \<lfloor>log 2 \<bar>x\<bar>\<rfloor> (- 1022)"
  define ulp :: real where "ulp = 2 powr (of_int e - 52)"
  define n where "n = round_half_even (x / ulp)"
  note r = round64_unfold [OF False e_def ulp_def n_def]
  with assms have y: "y = of_int n * ulp" by (auto split: if_splits)
  have ulp_pos: "0 < ulp" by (simp add: ulp_def)
  show ?thesis
  proof (cases "e - 52 \<le> k")
    case True
    define d where "d = nat (k - (e - 52))"
    have "ulp * 2 ^ d = 2 powr (of_int e - 52) * 2 powr (of_nat d)"
      by (simp add: ulp_def powr_realpow)
    also have "\<dots> = 2 powr (of_int e - 52 + of_nat d)" by (simp add: powr_add)
    also have "of_int e - 52 + of_nat d = (of_int k :: real)" using True by (simp add: d_def)
    finally have pk: "2 powr of_int k = of_int (2 ^ d) * ulp" by (simp add: mult.commute)
    with assms(1) ulp_pos have "of_int (2 ^ d) \<le> x / ulp"
      by (simp add: pos_le_divide_eq)
    then have "2 ^ d \<le> n" unfolding n_def by (rule round_half_even_ge)
    then have "of_int (2 ^ d) \<le> (of_int n :: real)" by (simp only: of_int_le_iff)
    with ulp_pos show ?thesis unfolding y pk by (simp only: mult_le_cancel_right_pos)
  next
    case False
    with assms(2) have "- 1022 < e" by simp
    then have ee: "e = \<lfloor>log 2 \<bar>x\<bar>\<rfloor>" by (simp add: e_def max_def split: if_splits)
    from xpos have "2 powr of_int e \<le> x" unfolding ee using floor_log_le [of "\<bar>x\<bar>"] by simp
    moreover have "ulp \<le> 2 powr of_int e" unfolding ulp_def by (intro powr_mono) simp_all
    ultimately have "of_int 1 \<le> x / ulp" using ulp_pos by (simp add: pos_le_divide_eq)
    then have "1 \<le> n" unfolding n_def by (rule round_half_even_ge)
    then have "1 \<le> (of_int n :: real)" by simp
    with ulp_pos have "ulp \<le> y" unfolding y by simp
    moreover from False have "2 powr of_int k \<le> ulp"
      unfolding ulp_def by (intro powr_mono) simp_all
    ultimately show ?thesis by simp
  qed
qed


text \<open>A number within the finite range is rounded by at most half the spacing at it.\<close>

lemma round_half_even_near: "\<bar>of_int (round_half_even m) - m\<bar> \<le> 1 / 2"
  unfolding round_half_even_def Let_def by (auto simp: abs_le_iff)

lemma round64_near:
  assumes "2 powr of_int e \<le> \<bar>x\<bar>" "\<bar>x\<bar> < 2 powr (of_int e + 1)" "- 1022 \<le> e" "e \<le> 1022"
  shows "\<exists>y. round64 x = Fin y \<and> \<bar>y - x\<bar> \<le> 2 powr (of_int e - 53)"
proof -
  have pos: "0 < \<bar>x\<bar>" using assms(1) by (rule less_le_trans [rotated]) simp
  then have nz: "x \<noteq> 0" by simp
  have "of_int e \<le> log 2 \<bar>x\<bar>" using assms(1) pos by (simp add: le_log_iff)
  moreover have "log 2 \<bar>x\<bar> < of_int e + 1" using assms(2) pos by (simp add: log_less_iff)
  ultimately have fl: "\<lfloor>log 2 \<bar>x\<bar>\<rfloor> = e" by (intro floor_unique)
  define ulp :: real where "ulp = 2 powr (of_int e - 52)"
  define n where "n = round_half_even (x / ulp)"
  have e: "e = max \<lfloor>log 2 \<bar>x\<bar>\<rfloor> (- 1022)" using fl assms(3) by simp
  note r = round64_unfold [OF nz e ulp_def n_def]
  have ulp_pos: "0 < ulp" by (simp add: ulp_def)
  have "of_int n * ulp - x = (of_int n - x / ulp) * ulp"
    using ulp_pos by (simp add: field_simps)
  then have "\<bar>of_int n * ulp - x\<bar> = \<bar>of_int n - x / ulp\<bar> * ulp"
    using ulp_pos by (simp add: abs_mult)
  also have "\<dots> \<le> 1 / 2 * ulp"
    using ulp_pos round_half_even_near [of "x / ulp"] unfolding n_def
    by (intro mult_right_mono) simp_all
  also have "\<dots> = 2 powr (of_int e - 53)"
  proof -
    have "of_int e - 52 = (of_int e - 53) + (1::real)" by simp
    then have "(2::real) powr (of_int e - 52) = 2 powr ((of_int e - 53) + 1)" by (simp only:)
    also have "\<dots> = 2 powr (of_int e - 53) * 2 powr 1" by (rule powr_add)
    finally show ?thesis by (simp add: ulp_def)
  qed
  finally have near: "\<bar>of_int n * ulp - x\<bar> \<le> 2 powr (of_int e - 53)" .
  have "2 powr (of_int e - 53) \<le> (2::real) powr (of_int e + 1)" by (intro powr_mono) simp_all
  with near assms(2) have "\<bar>of_int n * ulp\<bar> < 2 powr (of_int e + 1) + 2 powr (of_int e + 1)"
    by linarith
  also have "\<dots> = 2 powr (of_int e + 2)"
  proof -
    have "of_int e + 2 = (of_int e + 1) + (1::real)" by simp
    then have "(2::real) powr (of_int e + 2) = 2 powr ((of_int e + 1) + 1)" by (simp only:)
    also have "\<dots> = 2 powr (of_int e + 1) * 2 powr 1" by (rule powr_add)
    finally show ?thesis by simp
  qed
  also have "\<dots> \<le> 2 powr 1024" using assms(4) by (intro powr_mono) simp_all
  also have "\<dots> = (2::real) ^ 1024" by (simp flip: powr_realpow)
  finally have "\<not> (2::real) ^ 1024 \<le> \<bar>of_int n * ulp\<bar>" by simp
  with r near show ?thesis by (simp only: if_False) blast
qed

lemma round64_two: "round64 2 = Fin 2"
proof -
  have u: "(2::real) powr (- 51) = 1 / 2 ^ 51"
    by (simp add: powr_minus_divide flip: powr_realpow)
  have "(2::real) / (1 / 2 ^ 51) = of_int (2 ^ 52)" by simp
  then have r: "round_half_even (2 / (1 / 2 ^ 51)) = 2 ^ 52"
    by (simp only: round_half_even_int)
  have small: "\<not> (2::real) ^ 1024 \<le> 2" by simp
  show ?thesis
    using r small by (simp add: round64_def u Let_def)
qed

lemma round64_nonpos:
  assumes "x \<le> 0" "round64 x = Fin y"
  shows "y \<le> 0"
proof (cases "x = 0")
  case True
  with assms show ?thesis by (simp add: round64_zero)
next
  case False
  define e where "e = max \<lfloor>log 2 \<bar>x\<bar>\<rfloor> (- 1022)"
  define ulp :: real where "ulp = 2 powr (of_int e - 52)"
  define n where "n = round_half_even (x / ulp)"
  note r = round64_unfold [OF False e_def ulp_def n_def]
  with assms have y: "y = of_int n * ulp" by (auto split: if_splits)
  have ulp_pos: "0 < ulp" by (simp add: ulp_def)
  with assms(1) have "x / ulp \<le> of_int 0" by (simp add: divide_le_0_iff)
  then have "n \<le> 0" unfolding n_def by (rule round_half_even_le)
  with ulp_pos show ?thesis unfolding y by (simp add: mult_le_0_iff)
qed

lemma round64_PInf: "round64 x = PInf \<Longrightarrow> 0 < x"
  unfolding round64_def Let_def by (simp only: split: if_splits) simp_all

lemma round64_NInf: "round64 x = NInf \<Longrightarrow> x < 0"
  unfolding round64_def Let_def by (simp only: split: if_splits) simp_all

lemma round64_on_grid: "on_grid (round64 x)"
proof (cases "round64 x")
  case (Fin y)
  show ?thesis
  proof (cases "x = 0")
    case True
    then show ?thesis by (simp add: round64_zero)
  next
    case False
    define e where "e = max \<lfloor>log 2 \<bar>x\<bar>\<rfloor> (- 1022)"
    define ulp :: real where "ulp = 2 powr (of_int e - 52)"
    define n where "n = round_half_even (x / ulp)"
    note r = round64_unfold [OF False e_def ulp_def n_def]
    with Fin have y: "y = of_int n * ulp" by (auto split: if_splits)
    have e: "- 1022 \<le> e" by (simp add: e_def)
    define d where "d = nat (e + 1022)"
    have "(2::real) powr (- 1074) * 2 ^ d = 2 powr (- 1074) * 2 powr (of_nat d)"
      by (simp add: powr_realpow)
    also have "\<dots> = 2 powr (- 1074 + of_nat d)" by (simp only: powr_add)
    also have "- 1074 + of_nat d = (of_int e - 52 :: real)" using e by (simp add: d_def)
    finally have "ulp = of_int (2 ^ d) * 2 powr (- 1074)" by (simp add: ulp_def mult.commute)
    then have "y = of_int (n * 2 ^ d) * 2 powr (- 1074)" unfolding y by simp
    with Fin show ?thesis by (simp only: on_grid.simps) blast
  qed
qed (simp_all add: round64_not_NaN)

text \<open>The sign of a rounded difference of two numbers of the grid.\<close>

lemma is_positive_round64:
  assumes "d = of_int n * 2 powr (- 1074)"
  shows "is_positive (round64 d) \<longleftrightarrow> 0 < d"
proof (cases "0 < d")
  case True
  have "0 < n"
  proof (rule ccontr)
    assume "\<not> 0 < n"
    then have "(of_int n :: real) \<le> 0" by simp
    then have "d \<le> 0" unfolding assms by (simp add: mult_le_0_iff)
    with True show False by simp
  qed
  then have "1 \<le> (of_int n :: real)" by simp
  then have "1 * 2 powr (- 1074) \<le> of_int n * (2::real) powr (- 1074)"
    by (intro mult_right_mono) simp_all
  then have lo: "2 powr of_int (- 1074) \<le> d" unfolding assms by simp
  show ?thesis
  proof (cases "round64 d")
    case (Fin y)
    from round64_lower [OF lo _ Fin] have "2 powr (- 1074) \<le> y" by simp
    then have "0 < y" by (rule less_le_trans [rotated]) simp
    with Fin True show ?thesis by simp
  next
    case NInf
    from round64_NInf [OF this] True show ?thesis by simp
  qed (simp_all add: round64_not_NaN True)
next
  case False
  then have le: "d \<le> 0" by simp
  show ?thesis
  proof (cases "round64 d")
    case (Fin y)
    from round64_nonpos [OF le Fin] Fin False show ?thesis by simp
  next
    case PInf
    from round64_PInf [OF this] False show ?thesis by simp
  qed (simp_all add: False)
qed

lemma round64_minus_one: "round64 (- 1) = Fin (- 1)"
proof -
  have u: "(2::real) powr (- 52) = 1 / 2 ^ 52"
    by (simp add: powr_minus_divide flip: powr_realpow)
  have "- (1::real) / (1 / 2 ^ 52) = of_int (- (2 ^ 52))" by simp
  then have r: "round_half_even (- 1 / (1 / 2 ^ 52)) = - (2 ^ 52)"
    by (simp only: round_half_even_int)
  have small: "\<not> (2::real) ^ 1024 \<le> 1" by simp
  show ?thesis
    using r small by (simp add: round64_def u Let_def)
qed

text \<open>A product that overflows.\<close>

lemma round_half_even_numeral: "round_half_even (numeral n) = numeral n"
  using round_half_even_int [of "numeral n"] by simp

lemma round64_huge: "round64 (2 ^ 1200) = PInf"
proof -
  have l: "log 2 \<bar>(2::real) ^ 1200\<bar> = 1200"
    by (simp add: log_pow_cancel del: power_numeral)
  show ?thesis
    unfolding round64_def Let_def l
    by (simp add: round_half_even_numeral)
qed

lemma huge_square: "round64 (2 ^ 600 * 2 ^ 600) = PInf"
proof -
  have "(2::real) ^ 600 * 2 ^ 600 = 2 ^ 1200" by (simp flip: power_add)
  then show ?thesis by (simp only: round64_huge)
qed

lemma get_prop_embedding: "get_prop ob ''embedding'' = Value (embedding ob)"
  by (simp add: embedding_def get_prop_def Object_prototype_names_def split: option.splits)

lemmas search_defs = search_def score_def similarity_to_def cosineSimilarity_def magnitude_def
  dotProduct_def at_index_def toFixed_parsed_def array_sort_def slice0_def upt_rec
  round64_zero round64_one round64_minus_one

section \<open>Lookup\<close>

lemma matches_empty: "matches [] ob"
  by (simp add: matches_def Object_keys_def)

lemma findIndex_None: "findIndex p xs = None \<longleftrightarrow> \<not> list_ex p xs"
  by (induction xs) auto

lemma findIndex_Some:
  "findIndex p xs = Some i \<Longrightarrow>
     i < length xs \<and> p (xs ! i) \<and> \<not> list_ex p (take i xs)"
proof (induction xs arbitrary: i)
  case Nil
  then show ?case by simp
next
  case (Cons x xs)
  show ?case
  proof (cases "p x")
    case True
    with Cons.prems show ?thesis by simp
  next
    case False
    with Cons.prems obtain j where j: "findIndex p xs = Some j" "i = Suc j"
      by auto
    from Cons.IH [OF j(1)] False j(2) show ?thesis by simp
  qed
qed

lemma splice1_split:
  "i < length xs \<Longrightarrow> xs = take i xs @ xs ! i # drop (Suc i) xs"
  by (simp add: id_take_nth_drop)

text \<open>
  C10: the empty filter matches every record, so \<open>get\<close> with it returns the first record
  of a non-empty index and \<^verbatim>\<open>null\<close> on an empty one, and \<open>remove\<close> with it deletes the
  first record of a non-empty index.
\<close>

theorem empty_filter_first:
  "matches [] ob \<and>
   get [] s = (case objects s of [] \<Rightarrow> None | x # xs \<Rightarrow> Some x) \<and>
   (objects s \<noteq> [] \<longrightarrow> remove [] s = (Inr (), s\<lparr>objects := tl (objects s)\<rparr>))"
  by (cases "objects s") (simp_all add: matches_empty get_def remove_def splice1_def)

theorem empty_filter_first_witness:
  "objects index12 \<noteq> [] \<and> get [] index12 = Some rec1 \<and>
   remove [] index12 = (Inr (), index12\<lparr>objects := [rec2]\<rparr>) \<and>
   get [] new_EmbeddingIndex = None"
  using empty_filter_first [of rec1 index12] empty_filter_first [of rec1 new_EmbeddingIndex]
  by (simp add: index12_def new_EmbeddingIndex_def)

section \<open>Removing records\<close>

lemma remove_cases:
  "remove flt s =
     (if \<not> list_ex (matches flt) (objects s) then (Inl NotFoundError, s)
      else (Inr (), s\<lparr>objects := splice1 (the (findIndex (matches flt) (objects s))) (objects s)\<rparr>))"
  by (cases "findIndex (matches flt) (objects s)")
     (auto simp: remove_def findIndex_None [symmetric])

lemma removeBatch_step_remove: "removeBatch_step flt s = snd (remove flt s)"
  by (simp add: removeBatch_step_def remove_def split: option.splits)

lemma removeBatch_ok: "fst (removeBatch filters s) = Inr ()"
  by (induction filters arbitrary: s) simp_all

text \<open>
  C8: \<open>remove\<close> fails with \<open>NotFoundError\<close> when no record matches and otherwise deletes
  the first matching record; \<open>removeBatch\<close> never fails: it goes through the filters in
  order, deleting the first record that matches a filter and passing over a filter that
  matches nothing.
\<close>

theorem remove_first_match_or_fail:
  "(\<not> list_ex (matches flt) (objects s) \<longrightarrow> remove flt s = (Inl NotFoundError, s)) \<and>
   (list_ex (matches flt) (objects s) \<longrightarrow>
      (\<exists>pre x post. objects s = pre @ x # post \<and> \<not> list_ex (matches flt) pre \<and>
         matches flt x \<and> remove flt s = (Inr (), s\<lparr>objects := pre @ post\<rparr>))) \<and>
   fst (removeBatch filters s) = Inr () \<and>
   removeBatch [] s = (Inr (), s) \<and>
   removeBatch (flt # filters) s =
     removeBatch filters (if list_ex (matches flt) (objects s) then snd (remove flt s) else s)"
proof -
  have found: "\<exists>pre x post. objects s = pre @ x # post \<and> \<not> list_ex (matches flt) pre \<and>
         matches flt x \<and> remove flt s = (Inr (), s\<lparr>objects := pre @ post\<rparr>)"
    if ex: "list_ex (matches flt) (objects s)"
  proof -
    from ex obtain i where i: "findIndex (matches flt) (objects s) = Some i"
      using findIndex_None [of "matches flt" "objects s"]
      by (cases "findIndex (matches flt) (objects s)") auto
    from findIndex_Some [OF i] have lt: "i < length (objects s)"
      and m: "matches flt (objects s ! i)"
      and pre: "\<not> list_ex (matches flt) (take i (objects s))"
      by simp_all
    have "remove flt s = (Inr (), s\<lparr>objects := take i (objects s) @ drop (Suc i) (objects s)\<rparr>)"
      using i by (simp add: remove_def splice1_def)
    with splice1_split [OF lt] m pre show ?thesis by blast
  qed
  have skip: "removeBatch_step flt s = s" if "\<not> list_ex (matches flt) (objects s)"
    using that findIndex_None [of "matches flt" "objects s"] by (simp add: removeBatch_step_def)
  show ?thesis
    using found skip by (auto simp: remove_cases removeBatch_ok removeBatch_step_remove)
qed

theorem remove_first_match_or_fail_witness:
  "\<not> list_ex (matches [(''id'', VNum (Fin 7))]) (objects index12) \<and>
   remove [(''id'', VNum (Fin 7))] index12 = (Inl NotFoundError, index12) \<and>
   list_ex (matches [(''id'', VNum (Fin 2))]) (objects index12) \<and>
   remove [(''id'', VNum (Fin 2))] index12 = (Inr (), index12\<lparr>objects := [rec1]\<rparr>) \<and>
   removeBatch [[(''id'', VNum (Fin 7))], [(''id'', VNum (Fin 2))]] index12 =
     (Inr (), index12\<lparr>objects := [rec1]\<rparr>)"
proof -
  let ?f7 = "[(''id'', VNum (Fin 7))]" and ?f2 = "[(''id'', VNum (Fin 2))]"
  have n7: "\<not> list_ex (matches ?f7) (objects index12)"
    by (simp add: index12_def rec1_def rec2_def matches_def Object_keys_def get_prop_def)
  have y2: "list_ex (matches ?f2) (objects index12)"
    by (simp add: index12_def rec1_def rec2_def matches_def Object_keys_def get_prop_def)
  have r2: "remove ?f2 index12 = (Inr (), index12\<lparr>objects := [rec1]\<rparr>)"
    by (simp add: index_defs index12_def rec1_def rec2_def)
  from remove_first_match_or_fail [of ?f7 index12 "[?f2]"] n7
  have a: "remove ?f7 index12 = (Inl NotFoundError, index12)"
    and b: "removeBatch [?f7, ?f2] index12 = removeBatch [?f2] index12"
    by simp_all
  from remove_first_match_or_fail [of ?f2 index12 "[]"] y2 r2
  have c: "removeBatch [?f2] index12 = (Inr (), index12\<lparr>objects := [rec1]\<rparr>)"
    by simp
  from n7 a y2 r2 b c show ?thesis by simp
qed

section \<open>Adding records\<close>

lemma isNaN_iff: "isNaN x \<longleftrightarrow> x = NaN"
  by (cases x) auto

lemma valid_embedding_iff:
  "valid_embedding ob \<longleftrightarrow> \<not> (\<not> isArray (embedding ob) \<or> some_isNaN (embedding ob))"
  by (cases "embedding ob") (auto simp: valid_embedding_def list_ex_iff isNaN_iff)

lemma every_has_prop:
  "list_all (\<lambda>key. has_prop ob key) names \<longleftrightarrow>
   set names \<subseteq> fst ` set ob \<union> set Object_prototype_names"
  by (auto simp: has_prop_def list_all_iff)

text \<open>What \<open>add\<close> does, case by case.\<close>

lemma add_cases:
  "add ob s =
     (if \<not> valid_embedding ob then (Inl InvalidEmbeddingError, s)
      else if keys s = [] then (Inr (), s\<lparr>keys := Object_keys ob, objects := objects s @ [ob]\<rparr>)
      else if \<not> set (keys s) \<subseteq> fst ` set ob \<union> set Object_prototype_names
      then (Inl SchemaMismatchError, s)
      else (Inr (), s\<lparr>objects := objects s @ [ob]\<rparr>))"
  unfolding add_def validateAndAdd_def valid_embedding_iff every_has_prop by simp

lemma valid_rec3: "valid_embedding rec3"
  by (simp add: valid_embedding_def rec3_def embedding_def get_prop_def)

lemma valid_rec_no_id: "valid_embedding rec_no_id"
  by (simp add: valid_embedding_def rec_no_id_def embedding_def get_prop_def)

text \<open>
  C5, as amended: \<open>add\<close> fails with \<open>InvalidEmbeddingError\<close> exactly when the embedding of
  the record is missing, is not an array or has a \<^verbatim>\<open>NaN\<close> entry. A record with a valid
  embedding is appended to the end of the sequence when the index has no schema yet or the
  record has every established field name. It is refused with \<open>SchemaMismatchError\<close>, the
  index staying as it was, when it lacks an established field name and no established field
  name is one of the names that every object inherits from \<^verbatim>\<open>Object.prototype\<close>.
\<close>

theorem add_validates_embedding:
  "(fst (add ob s) = Inl InvalidEmbeddingError \<longleftrightarrow> \<not> valid_embedding ob) \<and>
   (valid_embedding ob \<and> (keys s = [] \<or> has_all_fields (keys s) ob) \<longrightarrow>
      fst (add ob s) = Inr () \<and> objects (snd (add ob s)) = objects s @ [ob]) \<and>
   (valid_embedding ob \<and> keys s \<noteq> [] \<and> \<not> has_all_fields (keys s) ob \<and>
    set (keys s) \<inter> set Object_prototype_names = {} \<longrightarrow>
      add ob s = (Inl SchemaMismatchError, s))"
  by (auto simp: add_cases has_all_fields_def)

theorem add_validates_embedding_witness:
  "\<not> valid_embedding rec_no_embedding \<and>
   fst (add rec_no_embedding index12) = Inl InvalidEmbeddingError \<and>
   \<not> valid_embedding rec_nan \<and>
   fst (add rec_nan index12) = Inl InvalidEmbeddingError \<and>
   valid_embedding rec3 \<and> has_all_fields (keys index12) rec3 \<and>
   fst (add rec3 index12) = Inr () \<and>
   objects (snd (add rec3 index12)) = [rec1, rec2, rec3] \<and>
   valid_embedding rec_no_id \<and> keys index12 \<noteq> [] \<and> \<not> has_all_fields (keys index12) rec_no_id \<and>
   set (keys index12) \<inter> set Object_prototype_names = {} \<and>
   add rec_no_id index12 = (Inl SchemaMismatchError, index12)"
proof -
  have 1: "\<not> valid_embedding rec_no_embedding"
    by (simp add: valid_embedding_def rec_no_embedding_def embedding_def get_prop_def
        Object_prototype_names_def)
  have 2: "\<not> valid_embedding rec_nan"
    by (simp add: valid_embedding_def rec_nan_def embedding_def get_prop_def)
  have 3: "has_all_fields (keys index12) rec3"
    by (simp add: has_all_fields_def index12_def rec3_def)
  have 4: "keys index12 \<noteq> []" "\<not> has_all_fields (keys index12) rec_no_id"
    "set (keys index12) \<inter> set Object_prototype_names = {}"
    by (simp_all add: has_all_fields_def index12_def rec_no_id_def Object_prototype_names_def)
  have 5: "objects index12 = [rec1, rec2]"
    by (simp add: index12_def)
  from add_validates_embedding [of rec_no_embedding index12] 1
    add_validates_embedding [of rec_nan index12] 2
    add_validates_embedding [of rec3 index12] valid_rec3 3
    add_validates_embedding [of rec_no_id index12] valid_rec_no_id 4 5
  show ?thesis by simp
qed

text \<open>
  C5 as it was stated fails: a record with a valid embedding that lacks the established field
  name \<open>id\<close> is not appended.
\<close>

theorem add_counterexample:
  "valid_embedding rec_no_id \<and>
   fst (add rec_no_id index12) = Inl SchemaMismatchError \<and>
   objects (snd (add rec_no_id index12)) = objects index12"
  using valid_rec_no_id
  by (simp add: add_cases index12_def rec_no_id_def Object_prototype_names_def)

subsection \<open>The schema\<close>




section \<open>Failed calls\<close>

text \<open>
  C9: when \<open>add\<close>, \<open>update\<close> or \<open>remove\<close> throws, the index (its records, its schema and
  its store handle) is as it was before the call.
\<close>

theorem failed_call_leaves_index:
  "(fst (add ob s) = Inl e \<longrightarrow> snd (add ob s) = s) \<and>
   (fst (update flt ob s) = Inl e \<longrightarrow> snd (update flt ob s) = s) \<and>
   (fst (remove flt s) = Inl e \<longrightarrow> snd (remove flt s) = s)"
proof -
  have a: "fst (validateAndAdd ob s) = Inl e \<Longrightarrow> snd (validateAndAdd ob s) = s" for e
    by (auto simp: validateAndAdd_def split: if_splits)
  have u: "fst (update flt ob s) = Inl e \<Longrightarrow> snd (update flt ob s) = s"
    using a by (cases "validateAndAdd ob s")
      (auto simp: update_def split: option.splits sum.splits)
  have r: "fst (remove flt s) = Inl e \<Longrightarrow> snd (remove flt s) = s"
    by (auto simp: remove_def split: option.splits)
  from a u r show ?thesis by (simp add: add_def)
qed

theorem failed_call_leaves_index_witness:
  "fst (add rec_no_embedding index12) = Inl InvalidEmbeddingError \<and>
   snd (add rec_no_embedding index12) = index12 \<and>
   fst (add rec_no_id index12) = Inl SchemaMismatchError \<and>
   snd (add rec_no_id index12) = index12 \<and>
   fst (update [(''id'', VNum (Fin 7))] rec3 index12) = Inl NotFoundError \<and>
   snd (update [(''id'', VNum (Fin 7))] rec3 index12) = index12 \<and>
   fst (update [(''id'', VNum (Fin 1))] rec_nan index12) = Inl InvalidEmbeddingError \<and>
   snd (update [(''id'', VNum (Fin 1))] rec_nan index12) = index12 \<and>
   fst (remove [(''id'', VNum (Fin 7))] index12) = Inl NotFoundError \<and>
   snd (remove [(''id'', VNum (Fin 7))] index12) = index12"
proof -
  have 1: "fst (add rec_no_embedding index12) = Inl InvalidEmbeddingError"
    by (simp add: index_defs rec_no_embedding_def)
  have 2: "fst (add rec_no_id index12) = Inl SchemaMismatchError"
    by (simp add: index_defs rec_no_id_def index12_def)
  have 3: "fst (update [(''id'', VNum (Fin 7))] rec3 index12) = Inl NotFoundError"
    by (simp add: index_defs index12_def rec1_def rec2_def)
  have 4: "fst (update [(''id'', VNum (Fin 1))] rec_nan index12) = Inl InvalidEmbeddingError"
    by (simp add: index_defs index12_def rec1_def rec2_def rec_nan_def)
  have 5: "fst (remove [(''id'', VNum (Fin 7))] index12) = Inl NotFoundError"
    by (simp add: index_defs index12_def rec1_def rec2_def)
  from failed_call_leaves_index [of rec_no_embedding index12 InvalidEmbeddingError] 1
    failed_call_leaves_index [of rec_no_id index12 SchemaMismatchError] 2
    failed_call_leaves_index [of rec3 index12 NotFoundError "[(''id'', VNum (Fin 7))]"] 3
    failed_call_leaves_index [of rec_nan index12 InvalidEmbeddingError "[(''id'', VNum (Fin 1))]"] 4
    5
  show ?thesis by simp
qed

section \<open>Updating a record\<close>

text \<open>
  \<open>update\<close> runs \<open>validateAndAdd\<close>, which appends the new record, and then overwrites the
  matched position: a successful \<open>update\<close> makes the sequence one record longer.
\<close>

lemma update_grows:
  "fst (update flt vector s) = Inr () \<Longrightarrow>
   length (objects (snd (update flt vector s))) = length (objects s) + 1"
  by (cases "validateAndAdd vector s")
     (auto simp: update_def validateAndAdd_def split: option.splits sum.splits if_splits)

text \<open>
  C3 at a concrete input: updating the record with \<open>id = 1\<close> of a two-record index leaves
  three records, the new record standing both at the matched position and at the end.
\<close>

theorem update_appends_duplicate:
  "update [(''id'', VNum (Fin 1))] rec3 index12 =
     (Inr (), index12\<lparr>objects := [rec3, rec2, rec3]\<rparr>)"
  by (simp add: index_defs index12_def rec1_def rec2_def rec3_def)

section \<open>Cosine similarity of a zero vector\<close>

lemma sum_squares_zero:
  "list_all (\<lambda>a. a = Fin 0) vec \<Longrightarrow>
   foldl (\<lambda>sum a. num_add sum (num_mul a a)) (Fin 0) vec = Fin 0"
  by (induction vec) (simp_all add: round64_zero)

lemma magnitude_zero_vector: "list_all (\<lambda>a. a = Fin 0) vec \<Longrightarrow> magnitude vec = Fin 0"
  by (simp add: magnitude_def sum_squares_zero round64_zero)

text \<open>
  C7: for vectors of equal length and any precision, \<open>cosineSimilarity\<close> returns 0 when the
  magnitude of either vector is zero, in particular when either vector is all zero.
\<close>

theorem cosineSimilarity_zero_magnitude:
  "length vecA = length vecB \<Longrightarrow>
     (magnitude vecA = Fin 0 \<or> magnitude vecB = Fin 0 \<longrightarrow>
        cosineSimilarity vecA vecB precision = Inr (Fin 0)) \<and>
     (list_all (\<lambda>a. a = Fin 0) vecA \<or> list_all (\<lambda>b. b = Fin 0) vecB \<longrightarrow>
        cosineSimilarity vecA vecB precision = Inr (Fin 0))"
  using magnitude_zero_vector [of vecA] magnitude_zero_vector [of vecB]
  by (auto simp: cosineSimilarity_def)

theorem cosineSimilarity_zero_magnitude_witness:
  "length [Fin 0, Fin 0] = length [Fin 3, NaN] \<and>
   list_all (\<lambda>a. a = Fin 0) [Fin 0, Fin 0] \<and>
   magnitude [Fin 0, Fin 0] = Fin 0 \<and>
   cosineSimilarity [Fin 0, Fin 0] [Fin 3, NaN] 6 = Inr (Fin 0) \<and>
   cosineSimilarity [Fin 3, NaN] [Fin 0, Fin 0] (- 1) = Inr (Fin 0)"
  using cosineSimilarity_zero_magnitude [of "[Fin 0, Fin 0]" "[Fin 3, NaN]" 6]
    cosineSimilarity_zero_magnitude [of "[Fin 3, NaN]" "[Fin 0, Fin 0]" "- 1"]
  by (simp add: magnitude_def round64_zero)

section \<open>The order of similarities\<close>

lemma positive_difference:
  assumes "on_grid a" "on_grid b"
  shows "is_positive (num_sub b a) \<longleftrightarrow> \<not> num_ge a b"
proof (cases a)
  case a: (Fin x)
  show ?thesis
  proof (cases b)
    case b: (Fin y)
    from assms a b obtain m n :: int where
      "x = of_int m * 2 powr (- 1074)" "y = of_int n * 2 powr (- 1074)"
      by auto
    then have "y - x = of_int (n - m) * 2 powr (- 1074)" by (simp add: algebra_simps)
    from is_positive_round64 [OF this] a b show ?thesis by auto
  qed (use assms a in auto)
qed (use assms in \<open>cases b; auto\<close>)+

lemma on_grid_not_NaN: "on_grid a \<Longrightarrow> a \<noteq> NaN"
  by auto

lemma num_ge_trans: "num_ge a b \<Longrightarrow> num_ge b c \<Longrightarrow> num_ge a c"
  by (cases a; cases b; cases c) auto

lemma num_ge_total: "a \<noteq> NaN \<Longrightarrow> b \<noteq> NaN \<Longrightarrow> num_ge a b \<or> num_ge b a"
  by (cases a; cases b) auto


section \<open>Sorting by similarity\<close>

lemma mset_insert_sorted: "mset (insert_sorted cmp x xs) = add_mset x (mset xs)"
  by (induction xs) simp_all

lemma mset_array_sort: "mset (array_sort cmp xs) = mset xs"
  by (induction xs) (simp_all add: array_sort_def mset_insert_sorted)

lemma set_insert_sorted: "set (insert_sorted cmp x xs) = insert x (set xs)"
  using mset_insert_sorted [of cmp x xs] by (metis set_mset_add_mset_insert set_mset_mset)

lemma sorted_insert_sorted:
  assumes "on_grid (similarity x)" "\<forall>y\<in>set xs. on_grid (similarity y)"
    "sorted_wrt (\<lambda>a b. num_ge (similarity a) (similarity b)) xs"
  shows "sorted_wrt (\<lambda>a b. num_ge (similarity a) (similarity b))
           (insert_sorted (\<lambda>a b. num_sub (similarity b) (similarity a)) x xs)"
  using assms
proof (induction xs)
  case Nil
  then show ?case by simp
next
  case (Cons y ys)
  from Cons.prems have g: "on_grid (similarity x)" "on_grid (similarity y)" by simp_all
  then have n: "similarity x \<noteq> NaN" "similarity y \<noteq> NaN" by (simp_all add: on_grid_not_NaN)
  show ?case
  proof (cases "num_ge (similarity x) (similarity y)")
    case False
    with num_ge_total [OF n] have yx: "num_ge (similarity y) (similarity x)" by simp
    have "sorted_wrt (\<lambda>a b. num_ge (similarity a) (similarity b))
           (insert_sorted (\<lambda>a b. num_sub (similarity b) (similarity a)) x ys)"
      using Cons by simp
    with False yx Cons.prems show ?thesis
      by (auto simp: set_insert_sorted positive_difference [OF g])
  next
    case True
    have "num_ge (similarity x) (similarity z)" if "z \<in> set ys" for z
    proof -
      from Cons.prems(3) that have "num_ge (similarity y) (similarity z)" by simp
      with True show ?thesis by (rule num_ge_trans)
    qed
    with True Cons.prems show ?thesis
      by (auto simp: positive_difference [OF g])
  qed
qed

lemma sorted_array_sort:
  "\<forall>y\<in>set xs. on_grid (similarity y) \<Longrightarrow>
   sorted_wrt (\<lambda>a b. num_ge (similarity a) (similarity b))
     (array_sort (\<lambda>a b. num_sub (similarity b) (similarity a)) xs)"
proof (induction xs)
  case Nil
  then show ?case by (simp add: array_sort_def)
next
  case (Cons x xs)
  have "\<forall>y\<in>set (array_sort (\<lambda>a b. num_sub (similarity b) (similarity a)) xs).
          on_grid (similarity y)"
    using Cons.prems mset_array_sort [of "\<lambda>a b. num_sub (similarity b) (similarity a)" xs]
    by (metis list.set_intros(2) set_mset_mset)
  with Cons sorted_insert_sorted [of x "array_sort (\<lambda>a b. num_sub (similarity b) (similarity a)) xs"]
  show ?case by (simp add: array_sort_def)
qed

section \<open>Search\<close>

lemma map_throwing_all:
  assumes "\<And>x. x \<in> set xs \<Longrightarrow> \<exists>y. f x = Inr y \<and> P x y"
  shows "\<exists>ys. map_throwing f xs = Inr ys \<and> list_all2 P xs ys"
  using assms
proof (induction xs)
  case Nil
  then show ?case by simp
next
  case (Cons x xs)
  from Cons.prems [of x] obtain y where y: "f x = Inr y" "P x y" by auto
  from Cons.IH Cons.prems obtain ys where ys: "map_throwing f xs = Inr ys" "list_all2 P xs ys"
    by auto
  from y ys show ?case by simp
qed

lemma score_object: "score q ob = Inr r \<Longrightarrow> object r = ob"
  by (auto simp: score_def split: sum.splits)

text \<open>A similarity that is not \<^verbatim>\<open>NaN\<close> is a number of the grid.\<close>

lemma num_div_on_grid: "num_div a b \<noteq> NaN \<Longrightarrow> on_grid (num_div a b)"
  by (cases a; cases b) (auto simp: round64_on_grid inf_of_sign_def split: if_splits)

lemma toFixed_parsed_on_grid:
  "toFixed_parsed precision n = Inr c \<Longrightarrow> on_grid n \<Longrightarrow> on_grid c"
  by (cases n) (auto simp: toFixed_parsed_def round64_on_grid split: if_splits)

lemma toFixed_parsed_NaN: "toFixed_parsed precision NaN = Inr c \<Longrightarrow> c = NaN"
  by (simp add: toFixed_parsed_def split: if_splits)

lemma score_on_grid:
  assumes "score q ob = Inr r" "similarity r \<noteq> NaN"
  shows "on_grid (similarity r)"
proof -
  from assms(1) obtain a e where e: "embedding ob = VArray a e"
    and c: "cosineSimilarity q e 6 = Inr (similarity r)"
    by (cases "embedding ob") (auto simp: score_def similarity_to_def split: sum.splits if_splits)
  let ?n = "num_div (dotProduct q e) (num_mul (magnitude q) (magnitude e))"
  show ?thesis
  proof (cases "similarity r = Fin 0")
    case True
    have "(0::real) = of_int 0 * 2 powr (- 1074)" by simp
    with True show ?thesis by (simp only: on_grid.simps) blast
  next
    case False
    with c have t: "toFixed_parsed 6 ?n = Inr (similarity r)"
      by (auto simp: cosineSimilarity_def split: if_splits)
    with assms(2) have "?n \<noteq> NaN" using toFixed_parsed_NaN [of 6 "similarity r"] by auto
    then have "on_grid ?n" by (rule num_div_on_grid)
    with t show ?thesis by (rule toFixed_parsed_on_grid)
  qed
qed

text \<open>The records that are scored, said on the record and the query.\<close>

lemma scored_iff:
  "scored q ob \<longleftrightarrow>
     (\<exists>a e. embedding ob = VArray a e \<and> length e = length q \<and>
        (magnitude q = Fin 0 \<or> magnitude e = Fin 0 \<or>
         num_div (dotProduct q e) (num_mul (magnitude q) (magnitude e)) \<noteq> NaN))"
proof -
  have t: "toFixed_parsed 6 n = Inr c \<Longrightarrow> c = NaN \<longleftrightarrow> n = NaN" for n c
    using round64_not_NaN by (cases n) (auto simp: toFixed_parsed_def split: if_splits)
  have t2: "\<exists>c. toFixed_parsed 6 n = Inr c" for n
    by (cases n) (simp_all add: toFixed_parsed_def)
  show ?thesis
  proof (cases "embedding ob")
    case (VArray a e)
    from t2 obtain c where
      c: "toFixed_parsed 6 (num_div (dotProduct q e) (num_mul (magnitude q) (magnitude e))) = Inr c"
      by blast
    from t [OF c] c VArray show ?thesis
      by (auto simp: scored_def score_def similarity_to_def cosineSimilarity_def)
  qed (auto simp: scored_def score_def similarity_to_def)
qed

text \<open>
  Entries of magnitude at most \<open>2\<^sup>5\<^sup>0\<^sup>0\<close> in vectors of at most \<open>2\<^sup>2\<^sup>0\<close> entries: no
  sum overflows, a magnitude is zero or at least \<open>2\<^sup>-\<^sup>5\<^sup>3\<^sup>7\<close>, and the divisor is not zero.
\<close>

lemma bounded_entryE:
  assumes "bounded_entry x"
  obtains r where "x = Fin r" "\<bar>r\<bar> \<le> 2 ^ 500"
  using assms by (cases x) (simp_all add: bounded_entry_def)

lemma below_overflow: "n \<le> 2 ^ 20 \<Longrightarrow> of_nat n * (2::real) ^ 1000 < 2 ^ 1024"
proof -
  assume "n \<le> 2 ^ 20"
  then have "(of_nat n :: real) \<le> 2 ^ 20" by (simp add: of_nat_le_numeral_power_cancel_iff)
  then have "of_nat n * (2::real) ^ 1000 \<le> 2 ^ 20 * 2 ^ 1000"
    by (intro mult_right_mono) simp_all
  also have "\<dots> = 2 ^ 1020" by (simp flip: power_add)
  also have "\<dots> < (2::real) ^ 1024" by (intro power_strict_increasing) simp_all
  finally show ?thesis .
qed

lemma product_bounded:
  assumes "\<bar>r\<bar> \<le> 2 ^ 500" "\<bar>t\<bar> \<le> 2 ^ 500"
  shows "\<exists>p. round64 (r * t) = Fin p \<and> \<bar>p\<bar> \<le> 2 ^ 1000"
proof -
  have "\<bar>r * t\<bar> \<le> 2 ^ 500 * 2 ^ 500"
    unfolding abs_mult using assms by (intro mult_mono) simp_all
  also have "\<dots> = of_nat 1 * (2::real) ^ 1000" by (simp flip: power_add)
  finally have "\<exists>y. round64 (r * t) = Fin y \<and> \<bar>y\<bar> \<le> of_nat 1 * 2 ^ 1000"
    using below_overflow [of 1] by (intro round64_upper) simp_all
  then show ?thesis by simp
qed

lemma sum_bounded:
  assumes "\<bar>s\<bar> \<le> of_nat n * 2 ^ 1000" "\<bar>p\<bar> \<le> 2 ^ 1000" "Suc n \<le> 2 ^ 20"
  shows "\<exists>y. round64 (s + p) = Fin y \<and> \<bar>y\<bar> \<le> of_nat (Suc n) * 2 ^ 1000"
proof -
  have "\<bar>s + p\<bar> \<le> of_nat n * 2 ^ 1000 + 2 ^ 1000" using assms(1,2) by linarith
  also have "\<dots> = of_nat (Suc n) * (2::real) ^ 1000" by (simp add: algebra_simps)
  finally have b: "\<bar>s + p\<bar> \<le> of_nat (Suc n) * 2 ^ 1000" .
  have "Suc n < 2 ^ 53"
    using assms(3) by (rule le_less_trans) simp
  with b below_overflow [OF assms(3)] show ?thesis by (intro round64_upper)
qed

lemma sum_squares_bounded:
  assumes "list_all bounded_entry vec" "0 \<le> s" "s \<le> of_nat n * 2 ^ 1000"
    "n + length vec \<le> 2 ^ 20" "s = 0 \<or> 2 powr (- 1074) \<le> s"
  shows "\<exists>s'. foldl (\<lambda>sum a. num_add sum (num_mul a a)) (Fin s) vec = Fin s' \<and> 0 \<le> s' \<and>
           s' \<le> of_nat (n + length vec) * 2 ^ 1000 \<and> (s' = 0 \<or> 2 powr (- 1074) \<le> s')"
  using assms
proof (induction vec arbitrary: s n)
  case Nil
  then show ?case by simp
next
  case (Cons a vec)
  from Cons.prems(1) obtain r where r: "a = Fin r" "\<bar>r\<bar> \<le> 2 ^ 500"
    by (auto elim: bounded_entryE)
  from product_bounded [OF r(2) r(2)] obtain p where p: "round64 (r * r) = Fin p" "\<bar>p\<bar> \<le> 2 ^ 1000"
    by blast
  have p0: "0 \<le> p" using round64_nonneg [OF _ p(1)] by simp
  from Cons.prems have sn: "Suc n \<le> 2 ^ 20" "\<bar>s\<bar> \<le> of_nat n * 2 ^ 1000" by simp_all
  from sum_bounded [OF sn(2) p(2) sn(1)] obtain y where
    y: "round64 (s + p) = Fin y" "\<bar>y\<bar> \<le> of_nat (Suc n) * 2 ^ 1000"
    by blast
  have y0: "0 \<le> y" using round64_nonneg [OF _ y(1)] Cons.prems(2) p0 by simp
  with round64_grid [OF y(1)] have yg: "y = 0 \<or> 2 powr (- 1074) \<le> y" by simp
  from y(2) y0 have yb: "y \<le> of_nat (Suc n) * 2 ^ 1000" by simp
  from Cons.prems have "list_all bounded_entry vec" "Suc n + length vec \<le> 2 ^ 20" by simp_all
  from Cons.IH [OF this(1) y0 yb this(2) yg] r(1) p(1) y(1) show ?case by simp
qed

lemma dotProduct_bounded:
  assumes "list_all bounded_entry vecB" "list_all (\<lambda>(a, i). bounded_entry a) ps"
    "\<bar>s\<bar> \<le> of_nat n * 2 ^ 1000" "n + length ps \<le> 2 ^ 20"
  shows "\<exists>d. foldl (\<lambda>sum (a, i). num_add sum
                  (num_mul a (case at_index vecB i of Some b \<Rightarrow> b | None \<Rightarrow> Fin 0)))
                (Fin s) ps = Fin d \<and> \<bar>d\<bar> \<le> of_nat (n + length ps) * 2 ^ 1000"
  using assms(2-)
proof (induction ps arbitrary: s n)
  case Nil
  then show ?case by simp
next
  case (Cons x ps)
  obtain a i where x: "x = (a, i)" by (cases x)
  with Cons.prems(1) obtain r where r: "a = Fin r" "\<bar>r\<bar> \<le> 2 ^ 500"
    by (auto elim: bounded_entryE)
  have "bounded_entry (case at_index vecB i of Some b \<Rightarrow> b | None \<Rightarrow> Fin 0)"
    using assms(1) by (auto simp: at_index_def list_all_iff bounded_entry_def)
  then obtain t where t: "(case at_index vecB i of Some b \<Rightarrow> b | None \<Rightarrow> Fin 0) = Fin t"
    "\<bar>t\<bar> \<le> 2 ^ 500"
    by (auto elim: bounded_entryE)
  from product_bounded [OF r(2) t(2)] obtain p where p: "round64 (r * t) = Fin p" "\<bar>p\<bar> \<le> 2 ^ 1000"
    by blast
  from Cons.prems have sn: "Suc n \<le> 2 ^ 20" by simp
  from sum_bounded [OF Cons.prems(2) p(2) sn] obtain y where
    y: "round64 (s + p) = Fin y" "\<bar>y\<bar> \<le> of_nat (Suc n) * 2 ^ 1000"
    by blast
  from Cons.prems x have "list_all (\<lambda>(a, i). bounded_entry a) ps" "Suc n + length ps \<le> 2 ^ 20"
    by simp_all
  from Cons.IH [OF this(1) y(2) this(2)] x r(1) t(1) p(1) y(1) show ?case by simp
qed

lemma magnitude_bounded:
  assumes "list_all bounded_entry vec" "length vec \<le> 2 ^ 20"
  shows "\<exists>m. magnitude vec = Fin m \<and> (m = 0 \<or> 2 powr (- 537) \<le> m \<and> m \<le> 2 ^ 510)"
proof -
  from sum_squares_bounded [of vec 0 0] assms obtain s where
    s: "foldl (\<lambda>sum a. num_add sum (num_mul a a)) (Fin 0) vec = Fin s" "0 \<le> s"
      "s \<le> of_nat (length vec) * 2 ^ 1000" "s = 0 \<or> 2 powr (- 1074) \<le> s"
    by auto
  show ?thesis
  proof (cases "s = 0")
    case True
    with s(1) show ?thesis by (simp add: magnitude_def round64_zero)
  next
    case False
    with s(4) have lo: "2 powr (- 1074) \<le> s" by simp
    have "(of_nat (length vec) :: real) \<le> 2 ^ 20"
      using assms(2) by (simp add: of_nat_le_numeral_power_cancel_iff)
    then have "of_nat (length vec) * (2::real) ^ 1000 \<le> 2 ^ 20 * 2 ^ 1000"
      by (intro mult_right_mono) simp_all
    also have "\<dots> = (2 ^ 510) ^ 2" by (simp flip: power_add power_mult)
    finally have "s \<le> (2 ^ 510) ^ 2" using s(3) by simp
    then have "sqrt s \<le> sqrt ((2 ^ 510) ^ 2)" by (simp only: real_sqrt_le_iff)
    then have hi: "\<bar>sqrt s\<bar> \<le> of_nat 1 * 2 ^ 510" using s(2) by simp
    have "(2::real) powr (- 537) = sqrt (2 powr (- 1074))"
      by (simp add: powr_half_sqrt [symmetric] powr_powr)
    also have "\<dots> \<le> sqrt s" using lo by (simp only: real_sqrt_le_iff)
    finally have lo': "2 powr of_int (- 537) \<le> sqrt s" by simp
    have "of_nat 1 * (2::real) ^ 510 < 2 ^ 1024"
      by (simp only: of_nat_1 mult_1) (intro power_strict_increasing; simp)
    with hi obtain m where m: "round64 (sqrt s) = Fin m" "\<bar>m\<bar> \<le> of_nat 1 * 2 ^ 510"
      using round64_upper [of "sqrt s" 1 510] by auto
    from round64_lower [OF lo' _ m(1)] have "2 powr (- 537) \<le> m" by simp
    moreover from m(2) have "m \<le> 2 ^ 510" by (simp only: of_nat_1 mult_1 abs_le_iff)
    ultimately show ?thesis using m(1) s(1,2) by (simp add: magnitude_def)
  qed
qed

lemma scored_bounded:
  assumes "embedding ob = VArray a e" "length e = length q"
    "list_all bounded_entry q" "list_all bounded_entry e" "length q \<le> 2 ^ 20"
  shows "scored q ob"
proof -
  from magnitude_bounded [OF assms(3,5)] obtain mq where
    mq: "magnitude q = Fin mq" "mq = 0 \<or> 2 powr (- 537) \<le> mq \<and> mq \<le> 2 ^ 510"
    by blast
  from magnitude_bounded [OF assms(4)] assms(2,5) obtain me where
    me: "magnitude e = Fin me" "me = 0 \<or> 2 powr (- 537) \<le> me \<and> me \<le> 2 ^ 510"
    by auto
  have "magnitude q = Fin 0 \<or> magnitude e = Fin 0 \<or>
        num_div (dotProduct q e) (num_mul (magnitude q) (magnitude e)) \<noteq> NaN"
  proof (cases "mq = 0 \<or> me = 0")
    case True
    with mq me show ?thesis by auto
  next
    case False
    with mq(2) me(2) have b: "2 powr (- 537) \<le> mq" "mq \<le> 2 ^ 510"
      "2 powr (- 537) \<le> me" "me \<le> 2 ^ 510"
      by simp_all
    have nn: "0 \<le> mq" "0 \<le> me"
      using order_trans [OF _ b(1)] order_trans [OF _ b(3)] by simp_all
    have "(2::real) powr (- 537) * 2 powr (- 537) \<le> mq * me"
      using b nn by (intro mult_mono) simp_all
    then have lo: "2 powr of_int (- 1074) \<le> mq * me" by (simp flip: powr_add)
    then have pos: "0 < mq * me" by (rule less_le_trans [rotated]) simp
    have "mq * me \<le> 2 ^ 510 * 2 ^ 510"
      using b nn by (intro mult_mono) (simp_all del: power_numeral)
    also have "\<dots> = of_nat 1 * (2::real) ^ 1020" by (simp flip: power_add)
    finally have hi: "\<bar>mq * me\<bar> \<le> of_nat 1 * 2 ^ 1020" using pos by simp
    have "of_nat 1 * (2::real) ^ 1020 < 2 ^ 1024"
      by (simp only: of_nat_1 mult_1) (intro power_strict_increasing; simp)
    with hi obtain p where p: "round64 (mq * me) = Fin p"
      using round64_upper [of "mq * me" 1 1020] by auto
    from round64_lower [OF lo _ p] have "2 powr (- 1074) \<le> p" by simp
    then have p0: "p \<noteq> 0" using less_le_trans [of 0 "2 powr (- 1074)" p] by simp
    have "list_all (\<lambda>(a, i). bounded_entry a) (zip q [0 ..< length q])"
      using assms(3) by (auto simp: list_all_iff dest: set_zip_leftD)
    from dotProduct_bounded [OF assms(4) this, of 0 0] assms(5)
    obtain d where d: "dotProduct q e = Fin d" by (auto simp: dotProduct_def)
    from mq(1) me(1) p p0 d round64_not_NaN [of "d / p"] show ?thesis by simp
  qed
  with assms(1,2) show ?thesis unfolding scored_iff by simp
qed

text \<open>The ranking of the scored records.\<close>

lemma search_ranked:
  assumes "1 \<le> k"
    and "list_all (scored q) (filter (matches flt) (objects s))"
  shows "\<exists>ranked.
      search q \<lparr>topK = Some k, filter_opt = Some flt\<rparr> s = Inr (take (nat k) ranked) \<and>
      mset (map object ranked) = mset (filter (matches flt) (objects s)) \<and>
      (\<forall>r\<in>set ranked. score q (object r) = Inr r) \<and>
      sorted_wrt (\<lambda>a b. num_ge (similarity a) (similarity b)) ranked \<and>
      length (take (nat k) ranked) = min (nat k) (length (filter (matches flt) (objects s))) \<and>
      filter (matches []) (objects s) = objects s"
proof -
  let ?survivors = "filter (matches flt) (objects s)"
  let ?cmp = "\<lambda>a b. num_sub (similarity b) (similarity a)"
  let ?P = "\<lambda>ob r. object r = ob \<and> score q ob = Inr r \<and> on_grid (similarity r)"
  have "\<exists>y. score q ob = Inr y \<and> ?P ob y" if "ob \<in> set ?survivors" for ob
  proof -
    from that assms(2) have "scored q ob" by (simp add: list_all_iff)
    then obtain r where r: "score q ob = Inr r" "similarity r \<noteq> NaN"
      by (auto simp: scored_def split: sum.splits)
    with score_object [OF r(1)] score_on_grid [OF r] show ?thesis by simp
  qed
  from map_throwing_all [of ?survivors "score q" ?P, OF this]
  obtain sims where sims: "map_throwing (score q) ?survivors = Inr sims"
    and rel: "list_all2 ?P ?survivors sims"
    by blast
  from rel have objs: "map object sims = ?survivors"
    by (induction rule: list_all2_induct) simp_all
  from rel have each: "\<forall>r\<in>set sims. score q (object r) = Inr r \<and> on_grid (similarity r)"
    by (induction rule: list_all2_induct) simp_all
  let ?ranked = "array_sort ?cmp sims"
  have m: "mset ?ranked = mset sims" by (rule mset_array_sort)
  then have st: "set ?ranked = set sims" by (metis set_mset_mset)
  have 1: "search q \<lparr>topK = Some k, filter_opt = Some flt\<rparr> s = Inr (take (nat k) ?ranked)"
    using assms(1) sims by (simp add: search_def slice0_def)
  have 2: "mset (map object ?ranked) = mset ?survivors"
    using m objs by (metis mset_map)
  have 3: "\<forall>r\<in>set ?ranked. score q (object r) = Inr r" using each st by simp
  have 4: "sorted_wrt (\<lambda>a b. num_ge (similarity a) (similarity b)) ?ranked"
    using each by (intro sorted_array_sort) simp
  have "length ?ranked = length ?survivors"
    using m objs by (metis length_map size_mset)
  then have 5: "length (take (nat k) ?ranked) = min (nat k) (length ?survivors)"
    by simp
  have 6: "filter (matches []) (objects s) = objects s"
    by (simp add: matches_empty)
  from 1 2 3 4 5 6 show ?thesis by blast
qed

text \<open>A record of the wrong length makes the whole search throw.\<close>

lemma toFixed_parsed_6: "\<exists>c. toFixed_parsed 6 n = Inr c"
  by (cases n) (simp_all add: toFixed_parsed_def)

lemma score_array:
  assumes "isArray (embedding ob)"
  shows "(wrong_length q ob \<longrightarrow> score q ob = Inl LengthMismatchError) \<and>
         (\<not> wrong_length q ob \<longrightarrow> (\<exists>r. score q ob = Inr r))"
proof -
  from assms obtain a e where e: "embedding ob = VArray a e"
    by (cases "embedding ob") simp_all
  show ?thesis
  proof (cases "length e = length q")
    case True
    from toFixed_parsed_6 obtain c where
      "toFixed_parsed 6 (num_div (dotProduct q e) (num_mul (magnitude q) (magnitude e))) = Inr c" ..
    with True e show ?thesis
      by (auto simp: score_def similarity_to_def cosineSimilarity_def wrong_length_def)
  next
    case False
    with e show ?thesis
      by (auto simp: score_def similarity_to_def cosineSimilarity_def wrong_length_def)
  qed
qed

lemma map_throwing_first_error:
  assumes "\<And>x. x \<in> set xs \<Longrightarrow> f x = Inl E \<or> (\<exists>y. f x = Inr y)"
    and "\<exists>x\<in>set xs. f x = Inl E"
  shows "map_throwing f xs = Inl E"
  using assms
proof (induction xs)
  case Nil
  then show ?case by simp
next
  case (Cons x xs)
  show ?case
  proof (cases "f x")
    case (Inl e)
    with Cons.prems(1) [of x] show ?thesis by simp
  next
    case (Inr y)
    with Cons.prems(2) have ex: "\<exists>x\<in>set xs. f x = Inl E" by auto
    have "map_throwing f xs = Inl E"
      by (rule Cons.IH) (simp_all add: Cons.prems(1) ex)
    with Inr show ?thesis by simp
  qed
qed

lemma search_length_mismatch:
  assumes "list_all (\<lambda>ob. isArray (embedding ob)) (filter (matches flt) (objects s))"
    and "list_ex (wrong_length q) (filter (matches flt) (objects s))"
  shows "search q \<lparr>topK = k, filter_opt = Some flt\<rparr> s = Inl LengthMismatchError"
proof -
  let ?survivors = "filter (matches flt) (objects s)"
  have "map_throwing (score q) ?survivors = Inl LengthMismatchError"
  proof (rule map_throwing_first_error)
    fix ob assume "ob \<in> set ?survivors"
    with assms(1) have "isArray (embedding ob)" by (simp add: list_all_iff)
    from score_array [OF this, of q]
    show "score q ob = Inl LengthMismatchError \<or> (\<exists>y. score q ob = Inr y)" by blast
  next
    from assms(2) obtain ob where ob: "ob \<in> set ?survivors" "wrong_length q ob"
      by (auto simp: list_ex_iff)
    with assms(1) have "isArray (embedding ob)" by (simp add: list_all_iff)
    from score_array [OF this, of q] ob
    show "\<exists>ob\<in>set ?survivors. score q ob = Inl LengthMismatchError" by blast
  qed
  then show ?thesis by (simp add: search_def)
qed

text \<open>
  C1, as amended: let \<open>cosineSimilarity\<close> return a number other than \<^verbatim>\<open>NaN\<close> for the
  query and the embedding of every record that matches the filter, and let \<open>k \<ge> 1\<close>. Then
  \<open>search\<close> returns the first \<open>k\<close> entries of a ranking that holds exactly the matching
  records, each paired with its cosine similarity to the query, in non-increasing order of
  similarity; the result has \<open>min k n\<close> entries for \<open>n\<close> matching records, so all of them
  when \<open>k\<close> is larger; and the empty filter selects every record. When the matching records
  all carry an embedding array and one of them has another length than the query, \<open>search\<close>
  throws \<open>LengthMismatchError\<close>. The condition on the similarity holds for a record whose
  embedding is an array of the length of the query when the query has at most \<open>2\<^sup>2\<^sup>0\<close>
  entries and the entries of both are numbers of magnitude at most \<open>2\<^sup>5\<^sup>0\<^sup>0\<close>.
\<close>

theorem search_top_k:
  "(1 \<le> k \<and> list_all (scored q) (filter (matches flt) (objects s)) \<longrightarrow>
      (\<exists>ranked.
         search q \<lparr>topK = Some k, filter_opt = Some flt\<rparr> s = Inr (take (nat k) ranked) \<and>
         mset (map object ranked) = mset (filter (matches flt) (objects s)) \<and>
         (\<forall>r\<in>set ranked. score q (object r) = Inr r) \<and>
         sorted_wrt (\<lambda>a b. num_ge (similarity a) (similarity b)) ranked \<and>
         length (take (nat k) ranked) = min (nat k) (length (filter (matches flt) (objects s))) \<and>
         filter (matches []) (objects s) = objects s)) \<and>
   (list_all (\<lambda>ob. isArray (embedding ob)) (filter (matches flt) (objects s)) \<and>
    list_ex (wrong_length q) (filter (matches flt) (objects s)) \<longrightarrow>
      search q \<lparr>topK = Some k, filter_opt = Some flt\<rparr> s = Inl LengthMismatchError) \<and>
   (embedding ob = VArray a e \<and> length e = length q \<and> length q \<le> 2 ^ 20 \<and>
    list_all bounded_entry q \<and> list_all bounded_entry e \<longrightarrow> scored q ob)"
  using search_ranked [of k q flt s] search_length_mismatch [of flt s q "Some k"]
    scored_bounded [of ob a e q]
  by blast

theorem search_top_k_witness:
  "(1::int) \<le> 5 \<and>
   list_all (scored [Fin 1, Fin 0])
     (filter (matches [(''id'', VNum (Fin 2))]) (objects index12)) \<and>
   search [Fin 1, Fin 0] \<lparr>topK = Some 5, filter_opt = Some [(''id'', VNum (Fin 2))]\<rparr> index12 =
     Inr [\<lparr>similarity = Fin 0, object = rec2\<rparr>] \<and>
   list_all (scored [Fin 1, Fin 0]) (filter (matches []) (objects index12)) \<and>
   search [Fin 1, Fin 0] \<lparr>topK = Some 1, filter_opt = Some []\<rparr> index12 =
     Inr [\<lparr>similarity = Fin 1, object = rec1\<rparr>] \<and>
   list_all (\<lambda>ob. isArray (embedding ob)) (filter (matches []) (objects index12)) \<and>
   list_ex (wrong_length [Fin 1]) (filter (matches []) (objects index12)) \<and>
   search [Fin 1] \<lparr>topK = Some 1, filter_opt = Some []\<rparr> index12 = Inl LengthMismatchError \<and>
   embedding rec3 = VArray 3 [Fin 1, Fin 1] \<and>
   length [Fin 1, Fin (1::real)] = length [Fin 1, Fin (0::real)] \<and>
   length [Fin 1, Fin (0::real)] \<le> 2 ^ 20 \<and>
   list_all bounded_entry [Fin 1, Fin 0] \<and> list_all bounded_entry [Fin 1, Fin 1] \<and>
   scored [Fin 1, Fin 0] rec3"
proof -
  have b: "embedding rec3 = VArray 3 [Fin 1, Fin 1]"
    "length [Fin 1, Fin (1::real)] = length [Fin 1, Fin (0::real)]"
    "length [Fin 1, Fin (0::real)] \<le> 2 ^ 20"
    "list_all bounded_entry [Fin 1, Fin 0]" "list_all bounded_entry [Fin 1, Fin 1]"
    by (simp_all add: embedding_def get_prop_def rec3_def bounded_entry_def)
  from search_top_k [of 1 "[Fin 1, Fin 0]" "[]" index12 rec3 3 "[Fin 1, Fin 1]"] b
  have c: "scored [Fin 1, Fin 0] rec3" by blast
  from b c search_top_k [of 5 "[Fin 1, Fin 0]" "[(''id'', VNum (Fin 2))]" index12 rec3 3 "[Fin 1, Fin 1]"]
    search_top_k [of 1 "[Fin 1, Fin 0]" "[]" index12 rec3 3 "[Fin 1, Fin 1]"]
    search_top_k [of 1 "[Fin 1]" "[]" index12 rec3 3 "[Fin 1, Fin 1]"]
  show ?thesis
    by (simp add: search_defs scored_def wrong_length_def matches_def Object_keys_def
      get_prop_def embedding_def index12_def rec1_def rec2_def)
qed

text \<open>
  The similarity of \<open>[2\<^sup>6\<^sup>0\<^sup>0, 0]\<close> to itself: the squares overflow, and the quotient of two
  infinities is \<^verbatim>\<open>NaN\<close>.
\<close>

lemma magnitude_huge: "magnitude [Fin (2 ^ 600), Fin 0] = PInf"
  by (simp only: magnitude_def foldl.simps huge_square num_add.simps num_mul.simps
      mult_zero_left round64_zero num_sqrt.simps)

lemma dotProduct_huge: "dotProduct [Fin (2 ^ 600), Fin 0] [Fin (2 ^ 600), Fin 0] = PInf"
proof -
  have z: "zip [Fin (2 ^ 600), Fin 0] [0 ..< length [Fin (2 ^ 600), Fin (0::real)]] =
           [(Fin (2 ^ 600), 0), (Fin 0, 1)]"
    by (simp add: upt_rec del: power_numeral)
  have a0: "at_index [Fin (2 ^ 600), Fin 0] 0 = Some (Fin (2 ^ 600))"
    and a1: "at_index [Fin (2 ^ 600), Fin 0] 1 = Some (Fin 0)"
    by (simp_all add: at_index_def del: power_numeral)
  show ?thesis
    unfolding dotProduct_def z
    by (simp only: foldl.simps prod.case a0 a1 option.case huge_square num_add.simps
        num_mul.simps mult_zero_left round64_zero)
qed

lemma cosineSimilarity_huge:
  "cosineSimilarity [Fin (2 ^ 600), Fin 0] [Fin (2 ^ 600), Fin 0] 6 = Inr NaN"
  by (simp add: cosineSimilarity_def magnitude_huge dotProduct_huge toFixed_parsed_def
      del: power_numeral)

text \<open>
  C1 as it was stated fails: with \<open>topK = 0\<close> the code falls back to 3 and returns both
  records of a two-record index, where \<open>min 0 2 = 0\<close>; a query whose length differs from a
  matching record's embedding makes \<open>search\<close> throw; and a query and records without
  \<^verbatim>\<open>NaN\<close> can have the similarity \<^verbatim>\<open>NaN\<close>, which stands before the similarity 0
  in the result and is not greater than or equal to it.
\<close>

theorem search_counterexample:
  "search [Fin 1, Fin 0] \<lparr>topK = Some 0, filter_opt = Some []\<rparr> index12 =
     Inr [\<lparr>similarity = Fin 1, object = rec1\<rparr>, \<lparr>similarity = Fin 0, object = rec2\<rparr>] \<and>
   min (nat 0) (length (filter (matches []) (objects index12))) = 0 \<and>
   search [Fin 1] \<lparr>topK = Some 1, filter_opt = Some []\<rparr> index12 = Inl LengthMismatchError \<and>
   search [Fin (2 ^ 600), Fin 0] \<lparr>topK = Some 2, filter_opt = Some []\<rparr> index_huge =
     Inr [\<lparr>similarity = NaN, object = rec_huge\<rparr>, \<lparr>similarity = Fin 0, object = rec_zero\<rparr>] \<and>
   \<not> num_ge NaN (Fin 0)"
proof -
  have a: "search [Fin 1, Fin 0] \<lparr>topK = Some 0, filter_opt = Some []\<rparr> index12 =
     Inr [\<lparr>similarity = Fin 1, object = rec1\<rparr>, \<lparr>similarity = Fin 0, object = rec2\<rparr>]"
    by (simp add: search_defs matches_def Object_keys_def get_prop_def embedding_def
      index12_def rec1_def rec2_def)
  have b: "min (nat 0) (length (filter (matches []) (objects index12))) = 0" by simp
  have c: "search [Fin 1] \<lparr>topK = Some 1, filter_opt = Some []\<rparr> index12 = Inl LengthMismatchError"
    by (simp add: search_defs matches_def Object_keys_def get_prop_def embedding_def
      index12_def rec1_def rec2_def)
  have s1: "score [Fin (2 ^ 600), Fin 0] rec_huge = Inr \<lparr>similarity = NaN, object = rec_huge\<rparr>"
    by (simp add: score_def similarity_to_def embedding_def get_prop_def rec_huge_def
        cosineSimilarity_huge del: power_numeral)
  have s2: "score [Fin (2 ^ 600), Fin 0] rec_zero = Inr \<lparr>similarity = Fin 0, object = rec_zero\<rparr>"
    using magnitude_zero_vector [of "[Fin 0, Fin 0]"]
    by (simp add: score_def similarity_to_def embedding_def get_prop_def rec_zero_def
        cosineSimilarity_def del: power_numeral)
  have d: "search [Fin (2 ^ 600), Fin 0] \<lparr>topK = Some 2, filter_opt = Some []\<rparr> index_huge =
     Inr [\<lparr>similarity = NaN, object = rec_huge\<rparr>, \<lparr>similarity = Fin 0, object = rec_zero\<rparr>]"
    by (simp add: search_def index_huge_def matches_empty s1 s2 array_sort_def slice0_def
        del: power_numeral)
  from a b c d show ?thesis by simp
qed

subsection \<open>The scenario of the specification\<close>

text \<open>
  Records with the embeddings \<open>[1, 0]\<close>, \<open>[0, 1]\<close> and \<open>[1, 1]\<close>: the query \<open>[1, 0]\<close>
  with \<open>topK = 2\<close> finds the first record with similarity 1 and the third with the
  binary64 number nearest to \<open>0.707107\<close>, which is \<open>1 / sqrt 2\<close> as it is computed,
  rounded to six digits.
\<close>

lemma sqrt2_bounds: "(141421356 / 100000000) < sqrt 2" "sqrt 2 < (141421357 / 100000000)"
proof -
  have "((141421356 / 100000000) :: real)\<^sup>2 < 2" by (simp add: power2_eq_square)
  then show "(141421356 / 100000000) < sqrt 2" by (rule real_less_rsqrt)
  have "(2::real) < ((141421357 / 100000000))\<^sup>2" by (simp add: power2_eq_square)
  then show "sqrt 2 < (141421357 / 100000000)" by (intro real_less_lsqrt) simp_all
qed

lemma half_ulp_small: "(2::real) powr (- 53) < 1 / 1000000000000000" "(2::real) powr (- 54) < 1 / 1000000000000000"
  by (simp_all add: powr_minus_divide flip: powr_realpow)

lemma magnitude_diagonal:
  "\<exists>m. magnitude [Fin 1, Fin 1] = Fin m \<and> (141421355 / 100000000) < m \<and> m < (141421358 / 100000000)"
proof -
  have s: "foldl (\<lambda>sum a. num_add sum (num_mul a a)) (Fin 0) [Fin 1, Fin 1] = Fin 2"
    by (simp add: round64_zero round64_one round64_two)
  from sqrt2_bounds have "2 powr of_int 0 \<le> \<bar>sqrt 2\<bar>" "\<bar>sqrt 2\<bar> < 2 powr (of_int 0 + 1)"
    by simp_all
  from round64_near [OF this] obtain m where
    m: "round64 (sqrt 2) = Fin m" "\<bar>m - sqrt 2\<bar> \<le> 2 powr (- 53)"
    by auto
  from m(2) half_ulp_small(1) sqrt2_bounds have "(141421355 / 100000000) < m" "m < (141421358 / 100000000)" by linarith+
  with m(1) s show ?thesis by (simp add: magnitude_def)
qed


lemma cosine_diagonal:
  "cosineSimilarity [Fin 1, Fin 0] [Fin 1, Fin 1] 6 = Inr (round64 (707107 / 1000000))"
proof -
  from magnitude_diagonal obtain m where
    m: "magnitude [Fin 1, Fin 1] = Fin m" "(141421355 / 100000000) < m" "m < (141421358 / 100000000)"
    by blast
  have mq: "magnitude [Fin 1, Fin 0] = Fin 1"
    by (simp add: magnitude_def round64_zero round64_one)
  have dot: "dotProduct [Fin 1, Fin 0] [Fin 1, Fin 1] = Fin 1"
    by (simp add: dotProduct_def at_index_def upt_rec round64_zero round64_one)
  from m(2,3) have "2 powr of_int 0 \<le> \<bar>m\<bar>" "\<bar>m\<bar> < 2 powr (of_int 0 + 1)" by simp_all
  from round64_near [OF this] obtain p where
    p: "round64 m = Fin p" "\<bar>p - m\<bar> \<le> 2 powr (- 53)"
    by auto
  from p(2) half_ulp_small(1) m(2,3) have pb: "(141421354 / 100000000) < p" "p < (141421359 / 100000000)"
    by linarith+
  then have ppos: "0 < p" by simp
  have q1: "7071067 / 10000000 < 1 / p"
  proof -
    from pb(2) have "7071067 / 10000000 * p < 1" by simp
    with ppos show ?thesis by (simp add: pos_less_divide_eq)
  qed
  have q2: "1 / p < 7071069 / 10000000"
  proof -
    from pb(1) have "1 < 7071069 / 10000000 * p" by simp
    with ppos show ?thesis by (simp add: pos_divide_less_eq)
  qed
  have h: "(2::real) powr of_int (- 1) = 1 / 2" "(2::real) powr (of_int (- 1) + 1) = 1"
    by (simp_all add: powr_minus_divide)
  have ab: "\<bar>1 / p\<bar> = 1 / p" using ppos by simp
  have "2 powr of_int (- 1) \<le> \<bar>1 / p\<bar>" "\<bar>1 / p\<bar> < 2 powr (of_int (- 1) + 1)"
    unfolding h ab using q1 q2 by linarith+
  from round64_near [OF this] obtain d where
    d: "round64 (1 / p) = Fin d" "\<bar>d - 1 / p\<bar> \<le> 2 powr (- 54)"
    by auto
  from d(2) half_ulp_small(2) q1 q2 have db: "7071066 / 10000000 < d" "d < 7071070 / 10000000"
    by linarith+
  have fl: "\<lfloor>d * 1000000 + 1 / 2\<rfloor> = (707107::int)"
    using db by (intro floor_unique) simp_all
  have small: "\<not> 10 ^ 21 \<le> \<bar>d\<bar>" using db by simp
  have dpos: "sgn d = 1" "\<bar>d\<bar> = d" using db by simp_all
  have "toFixed_parsed 6 (Fin d) = Inr (round64 (sgn d * of_int \<lfloor>\<bar>d\<bar> * 10 ^ nat 6 + 1 / 2\<rfloor> / 10 ^ nat 6))"
    using small by (simp add: toFixed_parsed_def)
  also have "sgn d * of_int \<lfloor>\<bar>d\<bar> * 10 ^ nat 6 + 1 / 2\<rfloor> / 10 ^ nat 6 = 707107 / 1000000"
    unfolding dpos using fl by simp
  finally have t: "toFixed_parsed 6 (Fin d) = Inr (round64 (707107 / 1000000))" .
  from m(1) m(2) mq dot p(1) ppos d(1) t show ?thesis
    by (simp add: cosineSimilarity_def)
qed

lemma cosine_axes:
  "cosineSimilarity [Fin 1, Fin 0] [Fin 1, Fin 0] 6 = Inr (Fin 1)"
  "cosineSimilarity [Fin 1, Fin 0] [Fin 0, Fin 1] 6 = Inr (Fin 0)"
  by (simp_all add: cosineSimilarity_def magnitude_def dotProduct_def at_index_def
      toFixed_parsed_def upt_rec round64_zero round64_one)

lemma search_scenario:
  "search [Fin 1, Fin 0] \<lparr>topK = Some 2, filter_opt = None\<rparr>
     (index12\<lparr>objects := [rec1, rec2, rec3]\<rparr>) =
   Inr [\<lparr>similarity = Fin 1, object = rec1\<rparr>,
        \<lparr>similarity = round64 (707107 / 1000000), object = rec3\<rparr>]"
proof -
  have "(2::real) powr of_int (- 1) = 1 / 2" by (simp add: powr_minus_divide)
  then have "2 powr of_int (- 1) \<le> \<bar>707107 / 1000000 :: real\<bar>"
    "\<bar>707107 / 1000000 :: real\<bar> < 2 powr (of_int (- 1) + 1)"
    by simp_all
  from round64_near [OF this] obtain z where
    z: "round64 (707107 / 1000000) = Fin z" "\<bar>z - 707107 / 1000000\<bar> \<le> 2 powr (- 54)"
    by auto
  from z(2) half_ulp_small(2) have zb: "0 < z" "z < 1" by linarith+
  have g: "on_grid (Fin 0)" "on_grid (Fin 1)" "on_grid (Fin z)"
    using round64_on_grid [of 0] round64_on_grid [of 1] round64_on_grid [of "707107 / 1000000"]
    by (simp_all only: round64_zero round64_one z(1))
  have c1: "is_positive (num_sub (Fin z) (Fin 0))"
    using positive_difference [OF g(1) g(3)] zb by simp
  have c2: "\<not> is_positive (num_sub (Fin z) (Fin 1))"
    using positive_difference [OF g(2) g(3)] zb by simp
  have c3: "\<not> is_positive (num_sub (Fin 0) (Fin 1))"
    using positive_difference [OF g(2) g(1)] by simp
  have s: "score [Fin 1, Fin 0] rec1 = Inr \<lparr>similarity = Fin 1, object = rec1\<rparr>"
    "score [Fin 1, Fin 0] rec2 = Inr \<lparr>similarity = Fin 0, object = rec2\<rparr>"
    "score [Fin 1, Fin 0] rec3 = Inr \<lparr>similarity = Fin z, object = rec3\<rparr>"
    by (simp_all add: score_def similarity_to_def embedding_def get_prop_def cosine_axes
        cosine_diagonal z(1) rec1_def rec2_def rec3_def)
  show ?thesis
    unfolding z(1) using c1 c2 c3
    by (simp add: search_def s matches_empty array_sort_def slice0_def)
qed

section \<open>Saving, then loading\<close>

lemma store_record_absent:
  "map_of (databases e) n = None \<Longrightarrow> map_of (databases (store_record req e)) n = None"
  by (cases req) (auto simp: store_record_def update_conv' split: option.splits)

lemma fold_store_record_absent:
  "map_of (databases e) n = None \<Longrightarrow>
   map_of (databases (foldl (\<lambda>e' req. store_record req e') e reqs)) n = None"
  by (induction reqs arbitrary: e) (simp_all add: store_record_absent)

lemma settle_absent:
  "map_of (databases e) n = None \<Longrightarrow> map_of (databases (settle e)) n = None"
  by (simp add: settle_def fold_store_record_absent)

lemma pending_settle: "pending (settle e) = []"
  by (simp add: settle_def)

lemma settle_idle: "pending e = [] \<Longrightarrow> settle e = e"
  by (simp add: settle_def)

lemma next_addr_store_record: "next_addr (store_record req e) = next_addr e"
  by (cases req) (simp add: store_record_def split: option.splits)

lemma next_addr_settle: "next_addr (settle e) = next_addr e"
proof -
  have "next_addr (foldl (\<lambda>e' req. store_record req e') e reqs) = next_addr e" for reqs
    by (induction reqs arbitrary: e) (simp_all add: next_addr_store_record)
  then show ?thesis by (simp add: settle_def)
qed

text \<open>The loop of \<open>saveIndexToDB\<close> issues one request per record and settles none.\<close>

lemma issue_all:
  assumes "conn this = Some c" "\<not> conn_closed c" "name \<in> set (objectStores this)"
    "has_store e (conn_name c) name" "list_all cloneable obs"
  shows "foldl (\<lambda>e' ob. snd (addToDB name ob (this, e'))) e obs =
         e\<lparr>pending := pending e @ map (\<lambda>ob. (conn_name c, name, ob)) obs\<rparr>"
  using assms(4,5)
proof (induction obs arbitrary: e)
  case Nil
  then show ?case by simp
next
  case (Cons ob obs)
  let ?e1 = "e\<lparr>pending := pending e @ [(conn_name c, name, ob)]\<rparr>"
  from Cons.prems assms(1-3) have step: "snd (addToDB name ob (this, e)) = ?e1"
    by (simp add: addToDB_def transaction_def)
  have "has_store ?e1 (conn_name c) name"
    using Cons.prems(1) by (simp add: has_store_def)
  from Cons.IH [OF this] Cons.prems(2) step show ?case by simp
qed

lemma settle_appends:
  assumes "map_of (databases e) dbname = Some d" "map_of (db_stores d) name = Some records"
  shows "\<exists>d'. map_of (databases (foldl (\<lambda>e' req. store_record req e') e
                 (map (\<lambda>ob. (dbname, name, ob)) obs))) dbname = Some d' \<and>
              map_of (db_stores d') name = Some (records @ obs)"
  using assms
proof (induction obs arbitrary: e d records)
  case Nil
  then show ?case by simp
next
  case (Cons ob obs)
  let ?d1 = "d\<lparr>db_stores := AList.update name (records @ [ob]) (db_stores d)\<rparr>"
  let ?e1 = "store_record (dbname, name, ob) e"
  from Cons.prems have 1: "map_of (databases ?e1) dbname = Some ?d1"
    by (simp add: store_record_def update_conv')
  have 2: "map_of (db_stores ?d1) name = Some (records @ [ob])"
    by (simp add: update_conv')
  from Cons.IH [OF 1 2] show ?case by simp
qed

lemma same_value_revive: "same_value v (fst (revive_value n v))"
  by (cases v) simp_all

lemma same_record_revive: "same_record ob (fst (revive n ob))"
proof (induction ob arbitrary: n)
  case Nil
  then show ?case by (simp add: same_record_def)
next
  case (Cons kv ob)
  obtain key v where kv: "kv = (key, v)" by (cases kv)
  obtain v' n' where v: "revive_value n v = (v', n')" by (cases "revive_value n v")
  obtain r' n'' where r: "revive n' ob = (r', n'')" by (cases "revive n' ob")
  from Cons [of n'] r have "same_record ob r'" by simp
  moreover from same_value_revive [of v n] v have "same_value v v'" by simp
  ultimately show ?case using kv v r by (simp add: same_record_def)
qed

lemma same_record_revive_all: "list_all2 same_record obs (fst (revive_all n obs))"
proof (induction obs arbitrary: n)
  case Nil
  then show ?case by simp
next
  case (Cons ob obs)
  obtain ob' n' where o: "revive n ob = (ob', n')" by (cases "revive n ob")
  obtain obs' n'' where r: "revive_all n' obs = (obs', n'')" by (cases "revive_all n' obs")
  from Cons [of n'] r have "list_all2 same_record obs obs'" by simp
  moreover from same_record_revive [of ob n] o have "same_record ob ob'" by simp
  ultimately show ?case using o r by simp
qed

text \<open>The example index saved to a new database: resolved, with both requests pending.\<close>

lemma save12:
  "saveIndexToDB ''defaultDB'' ''DefaultStore'' (index12, engine0) =
    (Inr (),
     index12\<lparr>db := \<lparr>conn = Some \<lparr>conn_name = ''defaultDB'', conn_closed = False\<rparr>,
                     objectStores = [''DefaultStore''], version = 2\<rparr>\<rparr>,
     \<lparr>databases = [(''defaultDB'', \<lparr>db_version = 2, db_stores = [(''DefaultStore'', [])]\<rparr>)],
      pending = [(''defaultDB'', ''DefaultStore'', rec1), (''defaultDB'', ''DefaultStore'', rec2)],
      next_addr = 100\<rparr>)"
  by (simp add: store_defs index12_def engine0_def rec1_def rec2_def)

text \<open>
  C2, as amended: take an index with \<open>N \<ge> 1\<close> records, none of them holding a function,
  whose store handle is not connected yet, and a non-empty database name that the engine
  does not have yet. Then \<open>saveIndexToDB\<close> resolves, and \<open>loadIndexFromDB\<close> on the same index
  afterwards, whatever records the index holds in memory by then, resolves: the collection
  holds the \<open>N\<close> original records, and the index holds the \<open>N\<close> records read from it, new
  objects that are equal to the original ones as mappings from field names to values, in
  the original order.
\<close>

theorem save_then_load_same_index:
  assumes "objects s \<noteq> []" and "conn (db s) = None" and "0 < version (db s)"
    and "DBname \<noteq> []" and "map_of (databases e) DBname = None"
    and "list_all cloneable (objects s)"
  shows "\<exists>s1 e1.
      saveIndexToDB DBname name (s, e) = (Inr (), s1, e1) \<and>
      objects s1 = objects s \<and>
      (\<forall>mem. \<exists>s2 e2.
         loadIndexFromDB name (s1\<lparr>objects := mem\<rparr>, e1) = (Inr (), s2, e2) \<and>
         stored e2 DBname name = Some (objects s) \<and>
         objects s2 = fst (revive_all (next_addr e1) (objects s)) \<and>
         length (objects s2) = length (objects s) \<and>
         list_all2 same_record (objects s) (objects s2))"
proof -
  let ?v = "version (db s)"
  let ?ea = "settle e"
  let ?eb = "?ea\<lparr>databases :=
               AList.update DBname \<lparr>db_version = ?v, db_stores = []\<rparr> (databases ?ea)\<rparr>"
  let ?c = "\<lparr>conn_name = DBname, conn_closed = False\<rparr>"
  let ?d1 = "(db s)\<lparr>conn := Some ?c, version := ?v\<rparr>"
  have absent: "map_of (databases ?ea) DBname = None"
    using assms(5) by (rule settle_absent)
  have open1: "open_database DBname ?v e = (Opened True, ?eb)"
    using absent by (simp add: open_database_def Let_def)
  have init: "initializeDB DBname (db s, e) = (Inr (), ?d1, ?eb)"
    using assms(2,3) open1 by (simp add: initializeDB_def version_of_def update_conv')
  let ?ec = "?eb\<lparr>databases :=
               AList.update DBname \<lparr>db_version = ?v + 1, db_stores = []\<rparr> (databases ?eb)\<rparr>"
  have idle: "settle ?eb = ?eb" by (simp add: settle_idle pending_settle)
  have open2: "open_database DBname (?v + 1) ?eb = (Opened True, ?ec)"
    unfolding open_database_def idle by (simp add: update_conv' Let_def)
  let ?ed = "createObjectStore DBname name ?ec"
  let ?d2 = "?d1\<lparr>version := ?v + 1, objectStores := objectStores (db s) @ [name]\<rparr>"
  have nostore: "\<not> has_store ?ec DBname name"
    by (simp add: has_store_def update_conv')
  have make: "makeObjectStore name (?d1, ?eb) = (Inr (), ?d2, ?ed)"
    using open2 nostore assms(4) by (simp add: makeObjectStore_def createNewVersion_def Let_def)
  let ?dd = "\<lparr>db_version = ?v + 1, db_stores = [(name, [])]\<rparr>"
  have dbd: "map_of (databases ?ed) DBname = Some ?dd"
    by (simp add: createObjectStore_def update_conv')
  have hs: "has_store ?ed DBname name"
    using dbd by (simp add: has_store_def)
  have pd: "pending ?ed = []"
    by (simp add: createObjectStore_def update_conv' pending_settle)
  let ?e1 = "?ed\<lparr>pending := map (\<lambda>ob. (DBname, name, ob)) (objects s)\<rparr>"
  have issue: "foldl (\<lambda>e' ob. snd (addToDB name ob (?d2, e'))) ?ed (objects s) = ?e1"
    using issue_all [of ?d2 ?c name ?ed "objects s"] hs assms(6) pd by simp
  let ?s1 = "s\<lparr>db := ?d2\<rparr>"
  have save: "saveIndexToDB DBname name (s, e) = (Inr (), ?s1, ?e1)"
    using assms(1) init make issue by (simp add: saveIndexToDB_def)
  have tr: "transaction ?c name ?e1 = None"
    using hs by (simp add: transaction_def has_store_def)
  have dbd1: "map_of (databases ?e1) DBname = Some ?dd"
    using dbd by simp
  from settle_appends [of ?e1 DBname ?dd name "[]" "objects s", OF dbd1]
  obtain d' where d': "map_of (databases (settle ?e1)) DBname = Some d'"
    "map_of (db_stores d') name = Some (objects s)"
    by (auto simp: settle_def)
  obtain records n where rv: "revive_all (next_addr ?e1) (objects s) = (records, n)"
    by (cases "revive_all (next_addr ?e1) (objects s)")
  then have rv': "revive_all (next_addr (settle ?e1)) (objects s) = (records, n)"
    by (simp only: next_addr_settle)
  let ?e2 = "(settle ?e1)\<lparr>next_addr := n\<rparr>"
  have gen: "dbGenerator name (?d2, ?e1) = (Inr records, ?e2)"
    using tr d' rv' by (simp add: dbGenerator_def Let_def)
  let ?s2 = "?s1\<lparr>objects := records\<rparr>"
  have load: "loadIndexFromDB name (?s1\<lparr>objects := mem\<rparr>, ?e1) = (Inr (), ?s2, ?e2)" for mem
    using gen by (simp add: loadIndexFromDB_def Let_def)
  have st: "stored ?e2 DBname name = Some (objects s)"
    using d' by (simp add: stored_def)
  from same_record_revive_all [of "objects s" "next_addr ?e1"] rv
  have same: "list_all2 same_record (objects s) records" by simp
  then have len: "length records = length (objects s)"
    by (simp add: list_all2_lengthD)
  have rec: "objects ?s2 = fst (revive_all (next_addr ?e1) (objects s))"
    using rv by simp
  have "\<exists>s2 e2.
         loadIndexFromDB name (?s1\<lparr>objects := mem\<rparr>, ?e1) = (Inr (), s2, e2) \<and>
         stored e2 DBname name = Some (objects s) \<and>
         objects s2 = fst (revive_all (next_addr ?e1) (objects s)) \<and>
         length (objects s2) = length (objects s) \<and>
         list_all2 same_record (objects s) (objects s2)" for mem
    using load [of mem] st rec same len by (intro exI [of _ ?s2] exI [of _ ?e2]) simp
  with save show ?thesis by (intro exI [of _ ?s1] exI [of _ ?e1]) simp
qed

theorem save_then_load_same_index_witness:
  "objects index12 \<noteq> [] \<and> conn (db index12) = None \<and> 0 < version (db index12) \<and>
   ''defaultDB'' \<noteq> [] \<and> map_of (databases engine0) ''defaultDB'' = None \<and>
   list_all cloneable (objects index12) \<and>
   fst (saveIndexToDB ''defaultDB'' ''DefaultStore'' (index12, engine0)) = Inr () \<and>
   objects (fst saved12) = [rec1, rec2] \<and>
   fst (loadIndexFromDB ''DefaultStore'' ((fst saved12)\<lparr>objects := []\<rparr>, snd saved12)) = Inr () \<and>
   objects (fst (snd (loadIndexFromDB ''DefaultStore''
      ((fst saved12)\<lparr>objects := []\<rparr>, snd saved12)))) =
     [[(''id'', VNum (Fin 1)), (''embedding'', VArray 100 [Fin 1, Fin 0])],
      [(''id'', VNum (Fin 2)), (''embedding'', VArray 101 [Fin 0, Fin 1])]] \<and>
   stored (snd (snd (loadIndexFromDB ''DefaultStore''
      ((fst saved12)\<lparr>objects := []\<rparr>, snd saved12)))) ''defaultDB'' ''DefaultStore'' =
     Some [rec1, rec2]"
proof -
  have h: "objects index12 \<noteq> []" "conn (db index12) = None" "0 < version (db index12)"
    "''defaultDB'' \<noteq> []"
    "map_of (databases engine0) ''defaultDB'' = None" "list_all cloneable (objects index12)"
    by (simp_all add: index12_def new_DynamicDB_def engine0_def new_IDBFactory_def
        cloneable_def rec1_def rec2_def)
  from save_then_load_same_index [OF h, of "''DefaultStore''"]
  obtain s1 e1 where
    sv: "saveIndexToDB ''defaultDB'' ''DefaultStore'' (index12, engine0) = (Inr (), s1, e1)" and
    o1: "objects s1 = objects index12" and
    ld: "\<And>mem. \<exists>s2 e2. loadIndexFromDB ''DefaultStore'' (s1\<lparr>objects := mem\<rparr>, e1) = (Inr (), s2, e2) \<and>
         stored e2 ''defaultDB'' ''DefaultStore'' = Some (objects index12) \<and>
         objects s2 = fst (revive_all (next_addr e1) (objects index12))"
    by blast
  from ld [of "[]"] obtain s2 e2 where
    l2: "loadIndexFromDB ''DefaultStore'' (s1\<lparr>objects := []\<rparr>, e1) = (Inr (), s2, e2)"
    "stored e2 ''defaultDB'' ''DefaultStore'' = Some (objects index12)"
    "objects s2 = fst (revive_all (next_addr e1) (objects index12))"
    by blast
  from sv have sd: "fst saved12 = s1" "snd saved12 = e1" by (simp_all add: saved12_def)
  from sv have "next_addr e1 = 100" unfolding save12 by auto
  with l2(3) have 1: "objects s2 =
     [[(''id'', VNum (Fin 1)), (''embedding'', VArray 100 [Fin 1, Fin 0])],
      [(''id'', VNum (Fin 2)), (''embedding'', VArray 101 [Fin 0, Fin 1])]]"
    by (simp add: index12_def rec1_def rec2_def)
  have 2: "objects index12 = [rec1, rec2]" by (simp add: index12_def)
  from sv have 3: "fst (saveIndexToDB ''defaultDB'' ''DefaultStore'' (index12, engine0)) = Inr ()"
    by simp
  show ?thesis
    unfolding sd l2(1) using h 1 2 3 o1 l2(2) by simp
qed

text \<open>
  C2 as it was stated fails: \<open>loadIndexFromDB\<close> on a fresh index rejects with
  \<open>NotInitializedError\<close>, since only \<open>saveIndexToDB\<close> opens the connection of an index; a
  collection that has been saved to twice gives back \<open>2N\<close> records; and saving under the
  empty database name rejects when the database \<open>defaultDB\<close> is at a higher version, since
  \<open>createNewVersion\<close> opens that one instead.
\<close>

theorem load_on_fresh_index_counterexample:
  "fst (saveIndexToDB ''defaultDB'' ''DefaultStore'' (index12, engine0)) = Inr () \<and>
   loadIndexFromDB ''DefaultStore'' (new_EmbeddingIndex, snd saved12) =
     (Inl NotInitializedError, new_EmbeddingIndex, snd saved12) \<and>
   fst (saveIndexToDB ''defaultDB'' ''DefaultStore'' saved12) = Inr () \<and>
   map (map fst) (objects (fst (snd (loadIndexFromDB ''DefaultStore''
      (snd (saveIndexToDB ''defaultDB'' ''DefaultStore'' saved12)))))) =
     [[''id'', ''embedding''], [''id'', ''embedding''], [''id'', ''embedding''], [''id'', ''embedding'']] \<and>
   version_of engine_v3 ''defaultDB'' = 3 \<and>
   fst (saveIndexToDB '''' ''DefaultStore'' (index12, engine_v3)) = Inl SaveError"
  unfolding engine_v3_def saved12_def save12
  by (simp add: store_defs index12_def rec1_def rec2_def)

text \<open>
  C4 at concrete inputs: \<open>saveIndexToDB\<close> resolves while both insertions of a two-record
  index are still pending, the second issued before the first has settled; and it resolves
  for an index whose only record cannot be stored (the insertion rejects with
  \<open>DataCloneError\<close>), after which the collection is empty.
\<close>

theorem saveIndexToDB_resolves_before_insertions:
  "fst (saveIndexToDB ''defaultDB'' ''DefaultStore'' (index12, engine0)) = Inr () \<and>
   pending (snd saved12) =
     [(''defaultDB'', ''DefaultStore'', rec1), (''defaultDB'', ''DefaultStore'', rec2)] \<and>
   fst (saveIndexToDB ''defaultDB'' ''DefaultStore'' (index_fn, engine0)) = Inr () \<and>
   fst (addToDB ''DefaultStore'' rec_fn
          (db (fst (snd (saveIndexToDB ''defaultDB'' ''DefaultStore'' (index_fn, engine0)))),
           snd (snd (saveIndexToDB ''defaultDB'' ''DefaultStore'' (index_fn, engine0))))) =
     Inl DataCloneError \<and>
   objects (fst (snd (loadIndexFromDB ''DefaultStore''
      (snd (saveIndexToDB ''defaultDB'' ''DefaultStore'' (index_fn, engine0)))))) = []"
  unfolding saved12_def save12
  by (simp add: store_defs index_fn_def engine0_def rec_fn_def)

end
